theory Spec2Isabelle
  imports Main "HOL-Library.Word"
begin

section \<open>Go strings and the standard-library helpers the packages call\<close>

text \<open>
  A Go string is a sequence of bytes: \<^typ>\<open>string\<close>, a list of \<^typ>\<open>char\<close>.  Lengths and
  indices are Go \<open>int\<close>s that are never negative where they are used as such, so they are
  \<^typ>\<open>nat\<close>; an \<open>int\<close> a caller may set to any value (\<open>MinParts\<close>, \<open>Position\<close>) is
  \<^typ>\<open>int\<close>.

  \<open>strings.Split(s, ".")\<close>: the segments between the separators, empty ones kept, so
  that the result always has one segment more than \<open>s\<close> has separators.
\<close>

fun strings_Split :: "string \<Rightarrow> char \<Rightarrow> string list" where
  "strings_Split [] sep = [[]]"
| "strings_Split (c # cs) sep =
     (if c = sep then [] # strings_Split cs sep
      else (case strings_Split cs sep of
              [] \<Rightarrow> [[c]]
            | seg # segs \<Rightarrow> (c # seg) # segs))"

text \<open>\<open>strings.Join(parts, ".")\<close>.\<close>

fun strings_Join :: "string list \<Rightarrow> char \<Rightarrow> string" where
  "strings_Join [] sep = []"
| "strings_Join [p] sep = p"
| "strings_Join (p # q # ps) sep = p @ sep # strings_Join (q # ps) sep"

text \<open>\<open>strings.Contains(s, substr)\<close>: \<open>substr\<close> starts at some position of \<open>s\<close>.\<close>

fun strings_Contains :: "string \<Rightarrow> string \<Rightarrow> bool" where
  "strings_Contains [] substr = (substr = [])"
| "strings_Contains (c # cs) substr =
     (take (length substr) (c # cs) = substr \<or> strings_Contains cs substr)"

text \<open>\<open>strings.LastIndexByte(s, c)\<close>: the last index of \<open>c\<close> in \<open>s\<close>, or \<open>-1\<close>.\<close>

fun LastIndexByte_from :: "nat \<Rightarrow> string \<Rightarrow> char \<Rightarrow> int \<Rightarrow> int" where
  "LastIndexByte_from i [] c found = found"
| "LastIndexByte_from i (x # xs) c found =
     LastIndexByte_from (Suc i) xs c (if x = c then int i else found)"

definition strings_LastIndexByte :: "string \<Rightarrow> char \<Rightarrow> int" where
  "strings_LastIndexByte s c = LastIndexByte_from 0 s c (- 1)"


section \<open>Package router: patterns\<close>

text \<open>
  \<open>type Pattern struct\<close>.  The fields carry the prefix \<open>p\<close> because the rule record
  below has fields of the same names.  \<open>WildcardPos\<close> is a slice that \<open>AddPattern\<close> compares
  with \<open>nil\<close>, so the model keeps \<open>nil\<close> (\<open>None\<close>) apart from an empty slice (\<open>Some []\<close>).
\<close>

record Pattern =
  pID :: string
  pOriginalPath :: string
  pPrefix :: string
  pSuffix :: string
  pContains :: "string list"
  pParts :: "string list"
  pMinParts :: int
  pMaxParts :: int
  pWildcardPos :: "int list option"
  pEntity :: string
  pField :: string
  pPriority :: int

text \<open>The first and the last index at which a segment is the wildcard, \<open>-1\<close> when none is.\<close>

fun firstWildcard_from :: "nat \<Rightarrow> string list \<Rightarrow> int" where
  "firstWildcard_from i [] = - 1"
| "firstWildcard_from i (part # parts) =
     (if part = ''*'' then int i else firstWildcard_from (Suc i) parts)"

fun lastWildcard_from :: "nat \<Rightarrow> string list \<Rightarrow> int \<Rightarrow> int" where
  "lastWildcard_from i [] found = found"
| "lastWildcard_from i (part # parts) found =
     lastWildcard_from (Suc i) parts (if part = ''*'' then int i else found)"

definition CompilePattern :: "string \<Rightarrow> Pattern" where
  "CompilePattern path =
     (let p = \<lparr> pID = [], pOriginalPath = path, pPrefix = [], pSuffix = [],
                 pContains = [], pParts = [], pMinParts = 0, pMaxParts = 0,
                 pWildcardPos = None, pEntity = [], pField = [], pPriority = 0 \<rparr>
      in if \<not> strings_Contains path ''*'' then p \<lparr> pPrefix := path \<rparr>
         else
           let parts = strings_Split path (CHR ''.'');
               wildcardPos = map int (filter (\<lambda>i. parts ! i = ''*'') [0 ..< length parts]);
               firstWildcard = firstWildcard_from 0 parts;
               lastWildcard = lastWildcard_from 0 parts (- 1);
               p1 = p \<lparr> pParts := parts, pMinParts := int (length parts),
                        pMaxParts := int (length parts), pWildcardPos := Some wildcardPos \<rparr>;
               p2 = (if firstWildcard > 0
                     then p1 \<lparr> pPrefix := strings_Join (take (nat firstWildcard) parts) (CHR ''.'') @ ''.'' \<rparr>
                     else p1);
               p3 = (if lastWildcard \<ge> 0 \<and> lastWildcard < int (length parts) - 1
                     then p2 \<lparr> pSuffix := ''.'' @ strings_Join (drop (nat lastWildcard + 1) parts) (CHR ''.'') \<rparr>
                     else p2)
           in p3)"


section \<open>Package router: the prefix trie\<close>

text \<open>
  \<open>type TrieNode struct\<close>: \<open>children map[byte]*TrieNode\<close> is a partial map from bytes to
  nodes.  The trie is reached only through the router, which owns it, so the nodes are
  values.
\<close>

datatype TrieNode =
  TrieNode (children: "char \<Rightarrow> TrieNode option") (node_patterns: "Pattern list") (isEnd: bool)

definition NewTrie :: TrieNode where
  "NewTrie = TrieNode (\<lambda>_. None) [] False"

text \<open>
  \<open>Trie.Insert\<close> walks the prefix, creating the missing children, and appends the pattern
  at the node it reaches.
\<close>

fun Insert :: "TrieNode \<Rightarrow> string \<Rightarrow> Pattern \<Rightarrow> TrieNode" where
  "Insert node [] pattern =
     TrieNode (children node) (node_patterns node @ [pattern]) True"
| "Insert node (c # cs) pattern =
     (let child = (case children node c of
                     None \<Rightarrow> TrieNode (\<lambda>_. None) [] False
                   | Some n \<Rightarrow> n)
      in TrieNode ((children node)(c \<mapsto> Insert child cs pattern))
           (node_patterns node) (isEnd node))"

text \<open>
  \<open>Trie.Search\<close> collects the patterns of every terminal node on the walk.  When the walk
  breaks at a terminal node, that node's patterns are appended a second time by the check
  after the loop, as in the source.
\<close>

fun Search_from :: "TrieNode \<Rightarrow> string \<Rightarrow> Pattern list \<Rightarrow> Pattern list" where
  "Search_from node [] results =
     (if isEnd node then results @ node_patterns node else results)"
| "Search_from node (c # cs) results =
     (let results1 = (if isEnd node then results @ node_patterns node else results)
      in case children node c of
           None \<Rightarrow> (if isEnd node then results1 @ node_patterns node else results1)
         | Some child \<Rightarrow> Search_from child cs results1)"

definition Search :: "TrieNode \<Rightarrow> string \<Rightarrow> Pattern list" where
  "Search root path = Search_from root path []"


section \<open>Package router: registration and routing\<close>

record FastRouter =
  exactMatches :: "string \<rightharpoonup> Pattern"
  prefixTree :: TrieNode
  suffixIndex :: "string \<rightharpoonup> Pattern list"
  patterns :: "Pattern list"

text \<open>\<open>len\<close> of a slice that may be \<open>nil\<close>.\<close>

definition len_slice :: "'a list option \<Rightarrow> nat" where
  "len_slice xs = (case xs of None \<Rightarrow> 0 | Some ys \<Rightarrow> length ys)"

definition New_router :: FastRouter where
  "New_router = \<lparr> exactMatches = Map.empty, prefixTree = NewTrie,
                   suffixIndex = Map.empty, patterns = [] \<rparr>"

definition AddPattern :: "FastRouter \<Rightarrow> Pattern \<Rightarrow> FastRouter" where
  "AddPattern r p =
     (if pPrefix p \<noteq> [] \<and> pWildcardPos p = None
      then r \<lparr> exactMatches := (exactMatches r)(pOriginalPath p \<mapsto> p) \<rparr>
      else
        let r1 = (if pPrefix p \<noteq> [] \<and> len_slice (pWildcardPos p) > 0
                  then r \<lparr> prefixTree := Insert (prefixTree r) (pPrefix p) p \<rparr>
                  else r);
            r2 = (if pSuffix p \<noteq> []
                  then r1 \<lparr> suffixIndex := (suffixIndex r1)(pSuffix p \<mapsto>
                              (case suffixIndex r1 (pSuffix p) of
                                 None \<Rightarrow> [] | Some ps \<Rightarrow> ps) @ [p]) \<rparr>
                  else r1)
        in r2 \<lparr> patterns := patterns r2 @ [p] \<rparr>)"

text \<open>
  \<open>splitPathFast\<close> of package router.  \<open>seg\<close> is \<open>path[start:i]\<close>, the segment read so far;
  at the end of the path it is appended only when \<open>start < len(path)\<close>, that is when it
  is not empty: a trailing empty segment is dropped, and so is the only segment of the
  empty path.
\<close>

fun splitPathFast_from :: "string \<Rightarrow> string \<Rightarrow> string list" where
  "splitPathFast_from seg [] = (if seg \<noteq> [] then [seg] else [])"
| "splitPathFast_from seg (c # cs) =
     (if c = CHR ''.'' then seg # splitPathFast_from [] cs
      else splitPathFast_from (seg @ [c]) cs)"

definition splitPathFast :: "string \<Rightarrow> string list" where
  "splitPathFast path = splitPathFast_from [] path"

definition bytesHasPrefix :: "string \<Rightarrow> string \<Rightarrow> bool" where
  "bytesHasPrefix b prefix =
     (if length b < length prefix then False
      else list_all (\<lambda>i. b ! i = prefix ! i) [0 ..< length prefix])"

definition bytesHasSuffix :: "string \<Rightarrow> nat \<Rightarrow> string \<Rightarrow> bool" where
  "bytesHasSuffix b bLen suffix =
     (let sLen = length suffix in
      if bLen < sLen then False
      else let offset = bLen - sLen
           in list_all (\<lambda>i. b ! (offset + i) = suffix ! i) [0 ..< sLen])"

definition bytesContains :: "string \<Rightarrow> nat \<Rightarrow> string \<Rightarrow> bool" where
  "bytesContains b bLen substr =
     (let subLen = length substr in
      if bLen < subLen then False
      else if subLen = 0 then True
      else list_ex (\<lambda>i. b ! i = substr ! 0 \<and>
                         list_all (\<lambda>j. b ! (i + j) = substr ! j) [1 ..< subLen])
             [0 ..< bLen - subLen + 1])"

definition countDots :: "string \<Rightarrow> nat \<Rightarrow> nat" where
  "countDots b len = length (filter (\<lambda>i. b ! i = CHR ''.'') [0 ..< len])"

definition matchParts :: "string \<Rightarrow> Pattern \<Rightarrow> bool" where
  "matchParts path p =
     (let parts = splitPathFast path in
      if length parts \<noteq> length (pParts p) then False
      else list_all (\<lambda>i. \<not> (pParts p ! i \<noteq> ''*'' \<and> pParts p ! i \<noteq> parts ! i))
             [0 ..< length (pParts p)])"

definition matchPatternFast :: "string \<Rightarrow> nat \<Rightarrow> Pattern \<Rightarrow> bool" where
  "matchPatternFast pathBytes pathLen p =
     (if pPrefix p \<noteq> [] \<and> (pathLen < length (pPrefix p) \<or> \<not> bytesHasPrefix pathBytes (pPrefix p))
      then False
      else if pSuffix p \<noteq> [] \<and>
              (pathLen < length (pSuffix p) \<or> \<not> bytesHasSuffix pathBytes pathLen (pSuffix p))
      then False
      else if \<not> list_all (bytesContains pathBytes pathLen) (pContains p) then False
      else if length (pParts p) > 0 then matchParts (take pathLen pathBytes) p
      else if (pMinParts p > 0 \<or> pMaxParts p > 0) \<and>
              (let partCount = int (countDots pathBytes pathLen) + 1
               in (pMinParts p > 0 \<and> partCount < pMinParts p) \<or>
                  (pMaxParts p > 0 \<and> partCount > pMaxParts p))
      then False
      else True)"

text \<open>
  \<open>FastRouter.Route\<close>: the exact-match table, then the trie's candidates, then the
  candidates of the suffix table under the text from the last dot on, then every
  registered non-exact pattern; in each tier the first candidate that verifies wins.
\<close>

definition Route_suffix :: "FastRouter \<Rightarrow> string \<Rightarrow> Pattern option" where
  "Route_suffix r path =
     (let lastDot = strings_LastIndexByte path (CHR ''.'') in
      if lastDot > 0
      then (case suffixIndex r (drop (nat lastDot) path) of
              None \<Rightarrow> None
            | Some ps \<Rightarrow> List.find (matchPatternFast path (length path)) ps)
      else None)"

definition Route :: "FastRouter \<Rightarrow> string \<Rightarrow> Pattern option" where
  "Route r path =
     (case exactMatches r path of
        Some pattern \<Rightarrow> Some pattern
      | None \<Rightarrow>
          (case List.find (matchPatternFast path (length path)) (Search (prefixTree r) path) of
             Some p \<Rightarrow> Some p
           | None \<Rightarrow>
               (case Route_suffix r path of
                  Some p \<Rightarrow> Some p
                | None \<Rightarrow> List.find (matchPatternFast path (length path)) (patterns r))))"

text \<open>A router populated by registering the patterns of a list, in order.\<close>

definition populate :: "Pattern list \<Rightarrow> FastRouter" where
  "populate ps = foldl AddPattern New_router ps"

section \<open>Notions the statements about the router use\<close>

text \<open>
  The path splits on the dot into exactly three segments, the first \<open>A\<close> and the third
  \<open>C\<close>.
\<close>

definition three_segments_A_C :: "string \<Rightarrow> bool" where
  "three_segments_A_C path =
     (case strings_Split path (CHR ''.'') of
        [a, x, c] \<Rightarrow> a = ''A'' \<and> c = ''C''
      | _ \<Rightarrow> False)"

text \<open>
  The test of \<open>AddPattern\<close> that sends a pattern to the exact-match table and nowhere
  else.
\<close>

definition is_exact :: "Pattern \<Rightarrow> bool" where
  "is_exact p = (pPrefix p \<noteq> [] \<and> pWildcardPos p = None)"

text \<open>The patterns stored anywhere in a trie.\<close>

inductive in_trie :: "Pattern \<Rightarrow> TrieNode \<Rightarrow> bool" where
  here: "p \<in> set (node_patterns n) \<Longrightarrow> in_trie p n"
| below: "children n c = Some m \<Longrightarrow> in_trie p m \<Longrightarrow> in_trie p n"

text \<open>
  A compiled pattern as the callers register it: \<open>AddRule\<close> writes the rule's identifier
  into \<open>ID\<close>, and the callers of \<open>CompilePattern\<close> set \<open>Entity\<close> and \<open>Field\<close>.
\<close>

definition with_rule_fields :: "Pattern \<Rightarrow> string \<Rightarrow> string \<Rightarrow> string \<Rightarrow> Pattern" where
  "with_rule_fields p i e f = p \<lparr> pID := i, pEntity := e, pField := f \<rparr>"

section \<open>Package extractor\<close>

text \<open>
  \<open>splitPathFast\<close> of package extractor.  It differs from the router's function of the
  same name by the guard \<open>if i > start\<close>: a segment is appended at a dot only when it is
  not empty.
\<close>

fun extractor_splitPathFast_from :: "string \<Rightarrow> string \<Rightarrow> string list" where
  "extractor_splitPathFast_from seg [] = (if seg \<noteq> [] then [seg] else [])"
| "extractor_splitPathFast_from seg (c # cs) =
     (if c = CHR ''.''
      then (if seg \<noteq> [] then seg # extractor_splitPathFast_from [] cs
            else extractor_splitPathFast_from [] cs)
      else extractor_splitPathFast_from (seg @ [c]) cs)"

definition extractor_splitPathFast :: "string \<Rightarrow> string list" where
  "extractor_splitPathFast path = extractor_splitPathFast_from [] path"

text \<open>
  \<open>splitPathCached\<close> reads and fills the package-level \<open>pathCache\<close>, a map from paths to
  their segments; the model passes the cache in and returns it.
\<close>

type_synonym pathCache = "string \<rightharpoonup> string list"

definition splitPathCached :: "pathCache \<Rightarrow> string \<Rightarrow> string list \<times> pathCache" where
  "splitPathCached cache path =
     (case cache path of
        Some cached \<Rightarrow> (cached, cache)
      | None \<Rightarrow> (let parts = extractor_splitPathFast path
                 in (parts, cache(path \<mapsto> parts))))"

text \<open>The implementations of \<open>KeyExtractor\<close>.\<close>

datatype KeyExtractor =
    IndexExtractor int string
  | ValueExtractor
  | CompositeExtractor "KeyExtractor list" string
  | StaticExtractor string
  | LastPartExtractor int

text \<open>
  \<open>LastPartExtractor.Extract\<close> scans the path from its end for the \<open>Count\<close>-th dot.
  \<open>lastDot_scan\<close> takes the bytes still to scan in scanning order (the last byte of the
  path first), the index of the first of them, and the dots counted so far.
\<close>

fun lastDot_scan :: "string \<Rightarrow> int \<Rightarrow> int \<Rightarrow> int \<Rightarrow> int" where
  "lastDot_scan [] i count n = - 1"
| "lastDot_scan (c # cs) i count n =
     (if \<not> count < n then - 1
      else if c = CHR ''.''
      then (if count + 1 = n then i else lastDot_scan cs (i - 1) (count + 1) n)
      else lastDot_scan cs (i - 1) count n)"

definition LastPartExtractor_Extract :: "int \<Rightarrow> string \<Rightarrow> string" where
  "LastPartExtractor_Extract n path =
     (let lastDot = lastDot_scan (rev path) (int (length path) - 1) 0 n in
      if lastDot \<ge> 0 \<and> lastDot < int (length path) - 1
      then drop (nat lastDot + 1) path
      else path)"

definition IndexExtractor_Extract ::
    "int \<Rightarrow> string \<Rightarrow> pathCache \<Rightarrow> string \<Rightarrow> string \<Rightarrow> string \<times> pathCache" where
  "IndexExtractor_Extract position prefix cache path v =
     (let (parts, cache1) = splitPathCached cache path in
      if position < 0 \<or> position \<ge> int (length parts) then ([], cache1)
      else if prefix \<noteq> [] then (prefix @ parts ! nat position, cache1)
      else (parts ! nat position, cache1))"

text \<open>
  \<open>Extract\<close>, by the dynamic type of the extractor.  \<open>Extract_parts\<close> is the loop of
  \<open>CompositeExtractor.Extract\<close> over its parts, with the index of the next part and the
  text written to the builder so far.
\<close>

fun Extract :: "KeyExtractor \<Rightarrow> pathCache \<Rightarrow> string \<Rightarrow> string \<Rightarrow> string \<times> pathCache"
and Extract_parts ::
    "KeyExtractor list \<Rightarrow> string \<Rightarrow> nat \<Rightarrow> string \<Rightarrow> pathCache \<Rightarrow> string \<Rightarrow> string
       \<Rightarrow> string \<times> pathCache" where
  "Extract (IndexExtractor position prefix) cache path v =
     IndexExtractor_Extract position prefix cache path v"
| "Extract ValueExtractor cache path v = (v, cache)"
| "Extract (StaticExtractor s) cache path v = (s, cache)"
| "Extract (LastPartExtractor n) cache path v = (LastPartExtractor_Extract n path, cache)"
| "Extract (CompositeExtractor parts sep) cache path v =
     (case parts of
        [] \<Rightarrow> ([], cache)
      | [part] \<Rightarrow> Extract part cache path v
      | _ \<Rightarrow> Extract_parts parts sep 0 [] cache path v)"
| "Extract_parts [] sep i sb cache path v = (sb, cache)"
| "Extract_parts (part # parts) sep i sb cache path v =
     (let sb1 = (if i > 0 \<and> sep \<noteq> [] then sb @ sep else sb);
          (s, cache1) = Extract part cache path v
      in Extract_parts parts sep (Suc i) (sb1 @ s) cache1 path v)"

text \<open>
  The path cache is consistent when every entry holds the segments \<open>splitPathFast\<close>
  computes for its key.  The empty cache is, and \<open>splitPathCached\<close> keeps it so.
\<close>

definition pathCache_ok :: "pathCache \<Rightarrow> bool" where
  "pathCache_ok cache \<longleftrightarrow>
     (\<forall>path parts. cache path = Some parts \<longrightarrow> parts = extractor_splitPathFast path)"

text \<open>The dot-delimited segments of a path that are not empty, in order.\<close>

definition nonempty_segments :: "string \<Rightarrow> string list" where
  "nonempty_segments path = filter (\<lambda>s. s \<noteq> []) (strings_Split path (CHR ''.''))"

section \<open>Values, errors and the standard-library conversions\<close>

text \<open>
  The dynamic values (\<open>any\<close>) that the transforms produce and the setters consume:
  \<open>string\<close>, \<open>bool\<close>, \<open>int64\<close> and \<open>float64\<close>.  A \<open>float64\<close> is kept as its 64 bits;
  floating-point arithmetic is not modelled, and the three standard-library operations
  on floats that the code calls are parameters (\<open>float_ops\<close> below).
\<close>

datatype val = VString string | VBool bool | VInt64 int | VFloat64 "64 word"

text \<open>
  The errors of the packages, by the place that makes them.  \<open>ErrSyntax\<close> and \<open>ErrRange\<close>
  are \<open>strconv.NumError\<close> with the function and the input; \<open>Panic\<close> stands for a run-time
  panic.
\<close>

datatype err =
    ErrSyntax string string
  | ErrRange string string
  | ErrRuleNotFound string
  | ErrTypeNotRegistered string
  | ErrTypeAlreadyRegistered string
  | ErrTransformFailed err
  | ErrSetterFailed err
  | ErrField string err
  | ErrCannotConvert string string
  | ErrInvalidObject string
  | ErrCannotSet string
  | Panic string

record float_ops =
  ParseFloat :: "string \<Rightarrow> 64 word \<times> err option"
  int64_of_float :: "64 word \<Rightarrow> int"
  format_float :: "64 word \<Rightarrow> string"

definition byte :: "char \<Rightarrow> nat" where
  "byte c = of_char c"

text \<open>
  \<open>strings.ToLower\<close>, \<open>strings.ToUpper\<close> and \<open>strings.TrimSpace\<close> on ASCII text: a byte
  above 127 is left as it is (Go decodes UTF-8 there).
\<close>

definition strings_ToLower :: "string \<Rightarrow> string" where
  "strings_ToLower s =
     map (\<lambda>c. if 65 \<le> byte c \<and> byte c \<le> 90 then char_of (byte c + 32) else c) s"

definition strings_ToUpper :: "string \<Rightarrow> string" where
  "strings_ToUpper s =
     map (\<lambda>c. if 97 \<le> byte c \<and> byte c \<le> 122 then char_of (byte c - 32) else c) s"

definition isSpace :: "char \<Rightarrow> bool" where
  "isSpace c = (byte c \<in> {9, 10, 11, 12, 13, 32})"

definition strings_TrimSpace :: "string \<Rightarrow> string" where
  "strings_TrimSpace s = rev (dropWhile isSpace (rev (dropWhile isSpace s)))"

text \<open>\<open>strings.ReplaceAll(s, old, "")\<close> for a one-byte \<open>old\<close>.\<close>

definition strings_Remove :: "string \<Rightarrow> char \<Rightarrow> string" where
  "strings_Remove s old = filter (\<lambda>c. c \<noteq> old) s"

definition strings_HasSuffix :: "string \<Rightarrow> string \<Rightarrow> bool" where
  "strings_HasSuffix s suffix =
     (length suffix \<le> length s \<and> drop (length s - length suffix) s = suffix)"

text \<open>\<open>strconv.ParseBool\<close>.\<close>

definition ParseBool :: "string \<Rightarrow> bool \<times> err option" where
  "ParseBool str =
     (if str \<in> {''1'', ''t'', ''T'', ''TRUE'', ''true'', ''True''} then (True, None)
      else if str \<in> {''0'', ''f'', ''F'', ''FALSE'', ''false'', ''False''} then (False, None)
      else (False, Some (ErrSyntax ''ParseBool'' str)))"

text \<open>
  \<open>strconv.ParseUint(s, 10, 64)\<close> after its test for the empty string: the loop over the
  bytes, which stops at the first byte that is not a digit with a syntax error and at
  the first overflow with a range error.
\<close>

datatype num_err = Syntax | Range

definition maxUint64 :: nat where
  "maxUint64 = 2 ^ 64 - 1"

fun ParseUint_loop :: "string \<Rightarrow> nat \<Rightarrow> nat \<times> num_err option" where
  "ParseUint_loop [] n = (n, None)"
| "ParseUint_loop (c # cs) n =
     (if \<not> (48 \<le> byte c \<and> byte c \<le> 57) then (0, Some Syntax)
      else if n \<ge> maxUint64 div 10 + 1 then (maxUint64, Some Range)
      else let n1 = n * 10 + (byte c - 48)
           in if n1 > maxUint64 then (maxUint64, Some Range)
              else ParseUint_loop cs n1)"

definition ParseUint :: "string \<Rightarrow> nat \<times> num_err option" where
  "ParseUint s = (if s = [] then (0, Some Syntax) else ParseUint_loop s 0)"

text \<open>\<open>strconv.ParseInt(s, 10, 64)\<close>.\<close>

definition ParseInt :: "string \<Rightarrow> int \<times> err option" where
  "ParseInt s0 =
     (if s0 = [] then (0, Some (ErrSyntax ''ParseInt'' s0))
      else
        let neg = (hd s0 = CHR ''-'');
            s = (if hd s0 = CHR ''+'' \<or> hd s0 = CHR ''-'' then tl s0 else s0);
            (un, e) = ParseUint s;
            cutoff = (2 :: nat) ^ 63
        in if e = Some Syntax then (0, Some (ErrSyntax ''ParseInt'' s0))
           else if \<not> neg \<and> un \<ge> cutoff then (int cutoff - 1, Some (ErrRange ''ParseInt'' s0))
           else if neg \<and> un > cutoff then (- int cutoff, Some (ErrRange ''ParseInt'' s0))
           else (if neg then - int un else int un, None))"


section \<open>Package transform\<close>

type_synonym Transformer = "string \<Rightarrow> val \<times> err option"

definition MacNormalize :: Transformer where
  "MacNormalize v =
     (let mac0 = strings_ToLower v;
          mac1 = strings_Remove mac0 (CHR '':'');
          mac2 = strings_Remove mac1 (CHR ''-'');
          mac = strings_Remove mac2 (CHR ''.'')
      in if length mac \<noteq> 12 then (VString v, None)
         else if \<not> list_all (\<lambda>c. (48 \<le> byte c \<and> byte c \<le> 57) \<or> (97 \<le> byte c \<and> byte c \<le> 102)) mac
         then (VString v, None)
         else (VString (concat (map (\<lambda>i. (if i > 0 then '':'' else []) @ take 2 (drop i mac))
                                  [0, 2, 4, 6, 8, 10])), None))"

text \<open>\<open>IPValidate\<close> returns the trimmed text whether or not it parses as an address.\<close>

definition IPValidate :: Transformer where
  "IPValidate v = (VString (strings_TrimSpace v), None)"

definition ToBool :: Transformer where
  "ToBool v0 =
     (let v = strings_ToLower (strings_TrimSpace v0) in
      if v \<in> {''true'', ''1'', ''yes'', ''on'', ''enabled''} then (VBool True, None)
      else if v \<in> {''false'', ''0'', ''no'', ''off'', ''disabled''} then (VBool False, None)
      else (let (b, e) = ParseBool v in (VBool b, e)))"

definition ToInt :: "float_ops \<Rightarrow> Transformer" where
  "ToInt fl v0 =
     (let v1 = strings_TrimSpace v0 in
      if v1 = [] then (VInt64 0, None)
      else
        let v = strings_Remove v1 (CHR '','') in
        if strings_Contains v ''.'' \<and> snd (ParseFloat fl v) = None
        then (VInt64 (int64_of_float fl (fst (ParseFloat fl v))), None)
        else (let (i, e) = ParseInt v in (VInt64 i, e)))"

definition ToFloat :: "float_ops \<Rightarrow> Transformer" where
  "ToFloat fl v0 =
     (let v1 = strings_TrimSpace v0 in
      if v1 = [] then (VFloat64 0, None)
      else
        let v2 = strings_Remove v1 (CHR '','');
            v = (if strings_HasSuffix v2 ''%'' then take (length v2 - 1) v2 else v2)
        in if strings_HasSuffix v2 ''%'' \<and> snd (ParseFloat fl v) = None
           then (VFloat64 (fst (ParseFloat fl v)), None)
           else (let (f, e) = ParseFloat fl v in (VFloat64 f, e)))"

definition ToLower :: Transformer where
  "ToLower v = (VString (strings_ToLower v), None)"

definition ToUpper :: Transformer where
  "ToUpper v = (VString (strings_ToUpper v), None)"

definition Trim :: Transformer where
  "Trim v = (VString (strings_TrimSpace v), None)"

definition StripPercent :: Transformer where
  "StripPercent v =
     (if strings_HasSuffix v ''%'' then (VString (take (length v - 1) v), None)
      else (VString v, None))"

text \<open>
  The package-level table \<open>transformers\<close> as the package initialises it, and \<open>Register\<close>,
  \<open>Get\<close> and \<open>Apply\<close> on a table.
\<close>

type_synonym transformers = "string \<rightharpoonup> Transformer"

definition transformers_init :: "float_ops \<Rightarrow> transformers" where
  "transformers_init fl =
     [''mac_normalize'' \<mapsto> MacNormalize,
      ''ip_validate'' \<mapsto> IPValidate,
      ''bool'' \<mapsto> ToBool,
      ''int'' \<mapsto> ToInt fl,
      ''float'' \<mapsto> ToFloat fl,
      ''lower'' \<mapsto> ToLower,
      ''upper'' \<mapsto> ToUpper,
      ''trim'' \<mapsto> Trim,
      ''percent_strip'' \<mapsto> StripPercent]"

definition Register :: "transformers \<Rightarrow> string \<Rightarrow> Transformer \<Rightarrow> transformers" where
  "Register tfs name fn = tfs(name \<mapsto> fn)"

definition Get :: "transformers \<Rightarrow> string \<Rightarrow> Transformer option" where
  "Get tfs name = tfs name"

definition Apply :: "transformers \<Rightarrow> string \<Rightarrow> string \<Rightarrow> val \<times> err option" where
  "Apply tfs name v =
     (case Get tfs name of
        None \<Rightarrow> (VString v, None)
      | Some fn \<Rightarrow> fn v)"

text \<open>
  \<open>FastTransform.Transform\<close>: the cache is a map from the key \<open>name + ":" + value\<close> to the
  cached result; a result is stored only when the transform returned no error.
\<close>

type_synonym FastTransform = "string \<rightharpoonup> val"

definition NewFastTransform :: FastTransform where
  "NewFastTransform = Map.empty"

definition Transform ::
    "FastTransform \<Rightarrow> transformers \<Rightarrow> string \<Rightarrow> string \<Rightarrow> (val \<times> err option) \<times> FastTransform" where
  "Transform cache tfs name v =
     (let cacheKey = name @ '':'' @ v in
      case cache cacheKey of
        Some cached \<Rightarrow> ((cached, None), cache)
      | None \<Rightarrow>
          (let (result, e) = Apply tfs name v
           in ((result, e), if e = None then cache(cacheKey \<mapsto> result) else cache)))"

text \<open>A sequence of \<open>Transform\<close> calls on one cache, each a name and a value.\<close>

fun Transform_calls ::
    "FastTransform \<Rightarrow> transformers \<Rightarrow> (string \<times> string) list \<Rightarrow> FastTransform" where
  "Transform_calls cache tfs [] = cache"
| "Transform_calls cache tfs ((name, v) # calls) =
     Transform_calls (snd (Transform cache tfs name v)) tfs calls"

section \<open>Package types: the entity store\<close>

text \<open>
  \<open>MapStore.data\<close>, a map from entity type to a map from key to entity.  The mutex is
  left out: the model is of one call at a time.  The factory is a function that may
  change a state of its own (\<open>'w\<close>), so that a call of the factory shows in the result.
\<close>

type_synonym 'a MapStore = "string \<rightharpoonup> (string \<rightharpoonup> 'a)"

definition NewMapStore :: "'a MapStore" where
  "NewMapStore = Map.empty"

definition Upsert ::
    "'a MapStore \<Rightarrow> string \<Rightarrow> string \<Rightarrow> ('w \<Rightarrow> 'a \<times> 'w) \<Rightarrow> 'w \<Rightarrow> 'a \<times> 'a MapStore \<times> 'w" where
  "Upsert s target key factory w =
     (let (grp, s1) = (case s target of
                           None \<Rightarrow> (Map.empty, s(target \<mapsto> Map.empty))
                         | Some g \<Rightarrow> (g, s))
      in case grp key of
           Some obj \<Rightarrow> (obj, s1, w)
         | None \<Rightarrow> (let (obj, w1) = factory w
                    in (obj, s1(target \<mapsto> grp(key \<mapsto> obj)), w1)))"

definition MapStore_Get :: "'a MapStore \<Rightarrow> string \<Rightarrow> string \<Rightarrow> 'a option" where
  "MapStore_Get s target key =
     (case s target of
        None \<Rightarrow> None
      | Some grp \<Rightarrow> grp key)"

definition MapStore_GetAll :: "'a MapStore \<Rightarrow> string \<Rightarrow> (string \<rightharpoonup> 'a) option" where
  "MapStore_GetAll s target = s target"

definition MapStore_Clear :: "'a MapStore \<Rightarrow> 'a MapStore" where
  "MapStore_Clear s = Map.empty"


section \<open>Entities in memory\<close>

text \<open>
  An entity is a pointer to a struct.  The struct type is the list of its fields as
  \<open>reflect\<close> shows them: name, kind of the field's type, \<open>PkgPath\<close> (empty exactly for an
  exported field) and the \<open>json\<close> and \<open>yaml\<close> tags.  The kinds are those of the entity
  types of the repository's examples and tests: \<open>string\<close>, \<open>bool\<close>, \<open>int\<close> and \<open>int64\<close>
  (\<open>int\<close> is 64 bits wide).  An object is a struct value with its type; the heap maps
  addresses to objects, and a factory allocates at the next free address.
\<close>

datatype kind = KString | KBool | KInt | KInt64

record StructField =
  sfName :: string
  sfType :: kind
  sfPkgPath :: string
  sfTagJSON :: string
  sfTagYAML :: string

definition IsExported :: "StructField \<Rightarrow> bool" where
  "IsExported f = (sfPkgPath f = [])"

record Object =
  oType :: "StructField list"
  oFields :: "val list"

definition Zero :: "kind \<Rightarrow> val" where
  "Zero k = (case k of KString \<Rightarrow> VString [] | KBool \<Rightarrow> VBool False
             | KInt \<Rightarrow> VInt64 0 | KInt64 \<Rightarrow> VInt64 0)"

text \<open>The value \<open>&T{}\<close> points to: every field zero.\<close>

definition zero_object :: "StructField list \<Rightarrow> Object" where
  "zero_object t = \<lparr> oType = t, oFields = map (\<lambda>f. Zero (sfType f)) t \<rparr>"

type_synonym addr = nat

record Heap =
  cells :: "addr \<rightharpoonup> Object"
  nextAddr :: addr

definition alloc :: "Heap \<Rightarrow> Object \<Rightarrow> addr \<times> Heap" where
  "alloc h obj = (nextAddr h, h \<lparr> cells := (cells h)(nextAddr h \<mapsto> obj), nextAddr := Suc (nextAddr h) \<rparr>)"


section \<open>Package registry\<close>

text \<open>\<open>fmt.Sprintf("%v", v)\<close> of an \<open>int64\<close>: the decimal digits, with a sign when negative.\<close>

fun digits_of :: "nat \<Rightarrow> string" where
  "digits_of n = (if n < 10 then [char_of (48 + n)]
                  else digits_of (n div 10) @ [char_of (48 + n mod 10)])"

definition format_int :: "int \<Rightarrow> string" where
  "format_int i = (if i < 0 then ''-'' @ digits_of (nat (- i)) else digits_of (nat i))"

definition type_name :: "val \<Rightarrow> string" where
  "type_name v = (case v of VString _ \<Rightarrow> ''string'' | VBool _ \<Rightarrow> ''bool''
                  | VInt64 _ \<Rightarrow> ''int64'' | VFloat64 _ \<Rightarrow> ''float64'')"

definition toString :: "float_ops \<Rightarrow> val \<Rightarrow> string \<times> err option" where
  "toString fl v =
     (case v of
        VString x \<Rightarrow> (x, None)
      | VBool b \<Rightarrow> (if b then ''true'' else ''false'', None)
      | VInt64 i \<Rightarrow> (format_int i, None)
      | VFloat64 f \<Rightarrow> (format_float fl f, None))"

definition toInt64 :: "float_ops \<Rightarrow> val \<Rightarrow> int \<times> err option" where
  "toInt64 fl v =
     (case v of
        VInt64 x \<Rightarrow> (x, None)
      | VFloat64 f \<Rightarrow> (int64_of_float fl f, None)
      | VString x \<Rightarrow> ParseInt x
      | VBool _ \<Rightarrow> (0, Some (ErrCannotConvert (type_name v) ''int64'')))"

definition toBool :: "val \<Rightarrow> bool \<times> err option" where
  "toBool v =
     (case v of
        VBool x \<Rightarrow> (x, None)
      | VString x \<Rightarrow> ParseBool x
      | VInt64 x \<Rightarrow> (x \<noteq> 0, None)
      | VFloat64 _ \<Rightarrow> (False, Some (ErrCannotConvert (type_name v) ''bool'')))"

text \<open>
  \<open>setFieldValue\<close> returns the value to store in the field, or the error.  A value whose
  type is the field's type is stored as it is (\<open>AssignableTo\<close>); otherwise it is converted
  by the kind of the field.  No value is \<open>nil\<close> and no field is a pointer, so the first two
  tests of the source never hold here; a 64-bit field never overflows.
\<close>

definition AssignableTo :: "val \<Rightarrow> kind \<Rightarrow> bool" where
  "AssignableTo v k =
     (case (v, k) of
        (VString _, KString) \<Rightarrow> True
      | (VBool _, KBool) \<Rightarrow> True
      | (VInt64 _, KInt64) \<Rightarrow> True
      | _ \<Rightarrow> False)"

definition setFieldValue :: "float_ops \<Rightarrow> kind \<Rightarrow> val \<Rightarrow> string \<Rightarrow> err + val" where
  "setFieldValue fl fieldType v fieldName =
     (if AssignableTo v fieldType then Inr v
      else case fieldType of
        KString \<Rightarrow> (case toString fl v of
                      (str, Some e) \<Rightarrow> Inl (ErrField fieldName e)
                    | (str, None) \<Rightarrow> Inr (VString str))
      | KInt \<Rightarrow> (case toInt64 fl v of
                   (i, Some e) \<Rightarrow> Inl (ErrField fieldName e)
                 | (i, None) \<Rightarrow> Inr (VInt64 i))
      | KInt64 \<Rightarrow> (case toInt64 fl v of
                     (i, Some e) \<Rightarrow> Inl (ErrField fieldName e)
                   | (i, None) \<Rightarrow> Inr (VInt64 i))
      | KBool \<Rightarrow> (case toBool v of
                    (b, Some e) \<Rightarrow> Inl (ErrField fieldName e)
                  | (b, None) \<Rightarrow> Inr (VBool b)))"

text \<open>
  A setter, the closure \<open>buildSetters\<close> makes for the field at \<open>fieldIndex\<close>.  It reads the
  field of the object by its index, which panics when the object has no such field.
\<close>

type_synonym setter = "Object \<Rightarrow> val \<Rightarrow> err + Object"

definition field_setter :: "float_ops \<Rightarrow> nat \<Rightarrow> string \<Rightarrow> kind \<Rightarrow> setter" where
  "field_setter fl fieldIndex fieldName fieldType obj v =
     (if \<not> fieldIndex < length (oFields obj) then Inl (Panic ''reflect: Field index out of range'')
      else case setFieldValue fl fieldType v fieldName of
             Inl e \<Rightarrow> Inl e
           | Inr x \<Rightarrow> Inr (obj \<lparr> oFields := (oFields obj)[fieldIndex := x] \<rparr>))"

fun buildSetters_from ::
    "float_ops \<Rightarrow> nat \<Rightarrow> StructField list \<Rightarrow> (string \<rightharpoonup> setter) \<Rightarrow> (string \<rightharpoonup> setter)" where
  "buildSetters_from fl i [] setters = setters"
| "buildSetters_from fl i (field # rest) setters =
     (if \<not> IsExported field then buildSetters_from fl (Suc i) rest setters
      else
        let s0 = setters(sfName field \<mapsto> field_setter fl i (sfName field) (sfType field));
            s1 = (if sfTagJSON field \<noteq> [] then s0(sfTagJSON field := s0 (sfName field)) else s0);
            s2 = (if sfTagYAML field \<noteq> [] then s1(sfTagYAML field := s1 (sfName field)) else s1)
        in buildSetters_from fl (Suc i) rest s2)"

definition buildSetters :: "float_ops \<Rightarrow> StructField list \<Rightarrow> (string \<rightharpoonup> setter)" where
  "buildSetters fl t = buildSetters_from fl 0 t Map.empty"

text \<open>
  \<open>TypeInfo\<close>.  The factory of a registered type is a function that returns a pointer to
  a new struct; the model keeps the struct it allocates (\<open>tiFactory\<close>), and calling the
  factory is \<open>alloc\<close> of that struct.
\<close>

record TypeInfo =
  tiType :: "StructField list"
  tiFactory :: Object
  tiSetters :: "string \<rightharpoonup> setter"

type_synonym Registry = "string \<rightharpoonup> TypeInfo"

definition Registry_New :: Registry where
  "Registry_New = Map.empty"

definition Registry_Register :: "float_ops \<Rightarrow> Registry \<Rightarrow> string \<Rightarrow> Object \<Rightarrow> err + Registry" where
  "Registry_Register fl r name factory =
     (case r name of
        Some _ \<Rightarrow> Inl (ErrTypeAlreadyRegistered name)
      | None \<Rightarrow> Inr (r(name \<mapsto> \<lparr> tiType = oType factory, tiFactory = factory,
                                tiSetters = buildSetters fl (oType factory) \<rparr>)))"

definition Registry_Get :: "Registry \<Rightarrow> string \<Rightarrow> err + TypeInfo" where
  "Registry_Get r name =
     (case r name of
        None \<Rightarrow> Inl (ErrTypeNotRegistered name)
      | Some info \<Rightarrow> Inr info)"


section \<open>Package pool\<close>

text \<open>
  A \<open>sync.Pool\<close>: the instances put back, and \<open>New\<close>.  \<open>sync.Pool.Get\<close> may return any of
  the instances or ignore them and call \<open>New\<close>; the argument \<open>choice\<close> says which: the
  instance at that index, and \<open>New\<close> when there is none at that index.
\<close>

record Pool =
  items :: "addr list"
  New :: Object

type_synonym ObjectPool = "string \<rightharpoonup> Pool"

definition ObjectPool_New :: ObjectPool where
  "ObjectPool_New = Map.empty"

definition ObjectPool_Register :: "ObjectPool \<Rightarrow> string \<Rightarrow> Object \<Rightarrow> ObjectPool" where
  "ObjectPool_Register p typeName factory = p(typeName \<mapsto> \<lparr> items = [], New = factory \<rparr>)"

definition sync_Pool_Get :: "Pool \<Rightarrow> nat \<Rightarrow> Heap \<Rightarrow> addr \<times> Pool \<times> Heap" where
  "sync_Pool_Get pl choice h =
     (if choice < length (items pl)
      then (items pl ! choice,
            pl \<lparr> items := take choice (items pl) @ drop (Suc choice) (items pl) \<rparr>, h)
      else (let (a, h1) = alloc h (New pl) in (a, pl, h1)))"

definition ObjectPool_Get ::
    "ObjectPool \<Rightarrow> string \<Rightarrow> nat \<Rightarrow> Heap \<Rightarrow> addr option \<times> ObjectPool \<times> Heap" where
  "ObjectPool_Get p typeName choice h =
     (case p typeName of
        None \<Rightarrow> (None, p, h)
      | Some pl \<Rightarrow> (let (a, pl1, h1) = sync_Pool_Get pl choice h
                   in (Some a, p(typeName \<mapsto> pl1), h1)))"

text \<open>\<open>resetObject\<close> sets every field that can be set, the exported ones, to its zero value.\<close>

definition resetObject :: "Object \<Rightarrow> Object" where
  "resetObject obj =
     obj \<lparr> oFields := map (\<lambda>i. if i < length (oType obj) \<and> IsExported (oType obj ! i)
                                then Zero (sfType (oType obj ! i))
                                else oFields obj ! i)
                         [0 ..< length (oFields obj)] \<rparr>"

definition ObjectPool_Put :: "ObjectPool \<Rightarrow> string \<Rightarrow> addr \<Rightarrow> Heap \<Rightarrow> ObjectPool \<times> Heap" where
  "ObjectPool_Put p typeName a h =
     (case p typeName of
        None \<Rightarrow> (p, h)
      | Some pl \<Rightarrow>
          (p(typeName \<mapsto> pl \<lparr> items := items pl @ [a] \<rparr>),
           h \<lparr> cells := (case cells h a of
                            None \<Rightarrow> cells h
                          | Some obj \<Rightarrow> (cells h)(a \<mapsto> resetObject obj)) \<rparr>))"

section \<open>Package mapper\<close>

text \<open>\<open>FastStats\<close>: each counter is an \<open>atomic.Int64\<close>, whose \<open>Add\<close> wraps around.\<close>

record FastStats =
  ProcessedLines :: "64 word"
  MatchedRules :: "64 word"
  FailedRules :: "64 word"
  CacheHits :: "64 word"
  CacheMisses :: "64 word"
  AllocCount :: "64 word"
  ReuseCount :: "64 word"
  ProcessingNanos :: "64 word"

record FastRule =
  rID :: string
  rPattern :: Pattern
  rEntity :: string
  rField :: string
  rTransform :: string
  rExtractor :: KeyExtractor

text \<open>
  \<open>FastMapper\<close>, with the state outside the struct that \<open>ProcessContext\<close> reads and
  writes: the memory of the entities (\<open>heap\<close>), the table of package transform
  (\<open>transformers\<close>) and the path cache of package extractor (\<open>pathCache\<close>).  \<open>stats\<close> is
  \<open>None\<close> for the \<open>nil\<close> pointer of a mapper made without \<open>WithFastStats\<close>.  The error
  handler is a function of the caller; \<open>errorHandler\<close> is the list of the errors it was
  called with, oldest first.  Patterns are values, which covers the callers that do not
  write to a pattern after they registered it.
\<close>

record FastMapper =
  router :: FastRouter
  rules :: "string \<rightharpoonup> FastRule"
  registry :: Registry
  store :: "addr MapStore"
  objectPool :: "ObjectPool option"
  transformer :: FastTransform
  stats :: "FastStats option"
  errorHandler :: "err list"
  heap :: Heap
  transformers :: transformers
  pathCache :: pathCache

definition zero_stats :: FastStats where
  "zero_stats = \<lparr> ProcessedLines = 0, MatchedRules = 0, FailedRules = 0, CacheHits = 0,
                  CacheMisses = 0, AllocCount = 0, ReuseCount = 0, ProcessingNanos = 0 \<rparr>"

text \<open>
  \<open>NewFast(reg, opts...)\<close>, in a process that has allocated no entity yet and whose
  transform table is \<open>tfs\<close>: the option \<open>WithFastStats\<close> is the flag \<open>withStats\<close>, and every
  type of the registry gets a pool with its factory.
\<close>

definition NewFast :: "Registry \<Rightarrow> bool \<Rightarrow> transformers \<Rightarrow> FastMapper" where
  "NewFast reg withStats tfs =
     \<lparr> router = New_router,
       rules = Map.empty,
       registry = reg,
       store = NewMapStore,
       objectPool = Some (\<lambda>typeName. case reg typeName of
                                         None \<Rightarrow> None
                                       | Some info \<Rightarrow> Some \<lparr> items = [], New = tiFactory info \<rparr>),
       transformer = NewFastTransform,
       stats = (if withStats then Some zero_stats else None),
       errorHandler = [],
       heap = \<lparr> cells = Map.empty, nextAddr = 0 \<rparr>,
       transformers = tfs,
       pathCache = Map.empty \<rparr>"

definition AddRule :: "FastMapper \<Rightarrow> FastRule \<Rightarrow> FastMapper" where
  "AddRule m rule =
     (let pattern = (rPattern rule) \<lparr> pID := rID rule \<rparr>;
          rule1 = rule \<lparr> rPattern := pattern \<rparr>
      in m \<lparr> router := AddPattern (router m) pattern,
             rules := (rules m)(rID rule \<mapsto> rule1) \<rparr>)"

text \<open>An update of the statistics, when the mapper has them.\<close>

definition on_stats :: "(FastStats \<Rightarrow> FastStats) \<Rightarrow> FastMapper \<Rightarrow> FastMapper" where
  "on_stats f m = m \<lparr> stats := map_option f (stats m) \<rparr>"

text \<open>
  The function \<open>ProcessContext\<close> defers once the path has matched: it runs at every
  return after that point.  \<open>dt\<close> is what \<open>time.Since(start).Nanoseconds()\<close> returns then.
\<close>

definition deferred_stats :: "64 word \<Rightarrow> FastMapper \<Rightarrow> FastMapper" where
  "deferred_stats dt m =
     on_stats (\<lambda>s. s \<lparr> ProcessedLines := ProcessedLines s + 1,
                       ProcessingNanos := ProcessingNanos s + dt \<rparr>) m"

text \<open>
  Lines 128 to 147: the candidate instance comes from the pool when the pool knows the
  entity type, and from the registry's factory otherwise.
\<close>

definition obtain_object :: "FastMapper \<Rightarrow> FastRule \<Rightarrow> nat \<Rightarrow> (err + addr) \<times> FastMapper" where
  "obtain_object m rule choice =
     (let (pooled, m1) =
            (case objectPool m of
               None \<Rightarrow> (None, m)
             | Some p \<Rightarrow>
                 (let (a, p1, h1) = ObjectPool_Get p (rEntity rule) choice (heap m)
                  in (a, m \<lparr> objectPool := Some p1, heap := h1 \<rparr>)))
      in case pooled of
           Some obj \<Rightarrow> (Inr obj, on_stats (\<lambda>s. s \<lparr> ReuseCount := ReuseCount s + 1 \<rparr>) m1)
         | None \<Rightarrow>
             (case Registry_Get (registry m1) (rEntity rule) of
                Inl e \<Rightarrow> (Inl e, m1)
              | Inr info \<Rightarrow>
                  (let (obj, h1) = alloc (heap m1) (tiFactory info)
                   in (Inr obj, on_stats (\<lambda>s. s \<lparr> AllocCount := AllocCount s + 1 \<rparr>)
                                  (m1 \<lparr> heap := h1 \<rparr>)))))"

text \<open>
  Lines 149 to 156: the upsert with a factory that returns the candidate, and the return
  of a losing candidate to the pool.  The result is the instance to write to.
\<close>

definition upsert_object :: "FastMapper \<Rightarrow> FastRule \<Rightarrow> string \<Rightarrow> addr \<Rightarrow> addr \<times> FastMapper" where
  "upsert_object m rule key obj =
     (let (existing, st, u) = Upsert (store m) (rEntity rule) key (\<lambda>u. (obj, u)) ();
          m1 = m \<lparr> store := st \<rparr>
      in case objectPool m1 of
           None \<Rightarrow> (obj, m1)
         | Some p \<Rightarrow>
             (if existing \<noteq> obj
              then (let (p1, h1) = ObjectPool_Put p (rEntity rule) obj (heap m1)
                    in (existing, m1 \<lparr> objectPool := Some p1, heap := h1 \<rparr>))
              else (obj, m1)))"

text \<open>
  Lines 158 to 181: the transform, then the setter of the field.  Reading the setters of
  an entity type the registry does not know dereferences \<open>nil\<close>.
\<close>

definition fail_with :: "err \<Rightarrow> FastMapper \<Rightarrow> FastMapper" where
  "fail_with e m =
     (on_stats (\<lambda>s. s \<lparr> FailedRules := FailedRules s + 1 \<rparr>) m)
       \<lparr> errorHandler := errorHandler m @ [e] \<rparr>"

definition set_field :: "FastMapper \<Rightarrow> FastRule \<Rightarrow> addr \<Rightarrow> val \<Rightarrow> err option \<times> FastMapper" where
  "set_field m rule obj finalValue =
     (case registry m (rEntity rule) of
        None \<Rightarrow> (Some (Panic ''nil pointer dereference''), m)
      | Some info \<Rightarrow>
          (case tiSetters info (rField rule) of
             None \<Rightarrow> (None, m)
           | Some setter \<Rightarrow>
               (case cells (heap m) obj of
                  None \<Rightarrow> (Some (Panic ''invalid pointer''), m)
                | Some ob \<Rightarrow>
                    (case setter ob finalValue of
                       Inl (Panic s) \<Rightarrow> (Some (Panic s), m)
                     | Inl e \<Rightarrow> (None, fail_with (ErrSetterFailed e) m)
                     | Inr ob1 \<Rightarrow>
                         (None, m \<lparr> heap := (heap m) \<lparr> cells := (cells (heap m))(obj \<mapsto> ob1) \<rparr> \<rparr>)))))"

definition transform_and_set :: "FastMapper \<Rightarrow> FastRule \<Rightarrow> addr \<Rightarrow> string \<Rightarrow> err option \<times> FastMapper" where
  "transform_and_set m rule obj v =
     (if rTransform rule \<noteq> []
      then (let ((transformed, e), c) = Transform (transformer m) (transformers m) (rTransform rule) v;
                m1 = m \<lparr> transformer := c \<rparr>
            in case e of
                 Some er \<Rightarrow> (None, fail_with (ErrTransformFailed er) m1)
               | None \<Rightarrow> set_field m1 rule obj transformed)
      else set_field m rule obj (VString v))"

text \<open>Lines 121 to 181, after the path has matched \<open>pattern\<close>.\<close>

definition Process_matched ::
    "FastMapper \<Rightarrow> Pattern \<Rightarrow> nat \<Rightarrow> string \<Rightarrow> string \<Rightarrow> err option \<times> FastMapper" where
  "Process_matched m pattern choice path v =
     (case rules m (pID pattern) of
        None \<Rightarrow> (Some (ErrRuleNotFound (pID pattern)), m)
      | Some rule \<Rightarrow>
          (let (key, pc) = Extract (rExtractor rule) (pathCache m) path v;
               m1 = m \<lparr> pathCache := pc \<rparr>
           in case obtain_object m1 rule choice of
                (Inl e, m2) \<Rightarrow> (Some e, m2)
              | (Inr candidate, m2) \<Rightarrow>
                  (let (obj, m3) = upsert_object m2 rule key candidate
                   in transform_and_set m3 rule obj v)))"

text \<open>
  \<open>ProcessContext\<close> (and \<open>Process\<close>, which calls it with the background context).  The
  inputs that are not arguments of the Go function are the choice of \<open>sync.Pool.Get\<close> and
  the elapsed time the deferred function reads.  The result is the returned error and
  the state after the call.
\<close>

definition ProcessContext ::
    "FastMapper \<Rightarrow> nat \<Rightarrow> 64 word \<Rightarrow> string \<Rightarrow> string \<Rightarrow> err option \<times> FastMapper" where
  "ProcessContext m choice dt path v =
     (case Route (router m) path of
        None \<Rightarrow> (None, on_stats (\<lambda>s. s \<lparr> CacheMisses := CacheMisses s + 1 \<rparr>) m)
      | Some pattern \<Rightarrow>
          (let m1 = on_stats (\<lambda>s. s \<lparr> MatchedRules := MatchedRules s + 1 \<rparr>) m;
               (r, m2) = Process_matched m1 pattern choice path v
           in (r, deferred_stats dt m2)))"

definition Process ::
    "FastMapper \<Rightarrow> nat \<Rightarrow> 64 word \<Rightarrow> string \<Rightarrow> string \<Rightarrow> err option \<times> FastMapper" where
  "Process m choice dt path v = ProcessContext m choice dt path v"

text \<open>The struct \<open>Host\<close> of the example program, and the registry that registers it.\<close>

definition exported_field :: "string \<Rightarrow> kind \<Rightarrow> StructField" where
  "exported_field n k = \<lparr> sfName = n, sfType = k, sfPkgPath = [], sfTagJSON = [], sfTagYAML = [] \<rparr>"

definition Host :: "StructField list" where
  "Host = [exported_field ''MACAddress'' KString,
           exported_field ''IPAddress'' KString,
           exported_field ''HostName'' KString,
           exported_field ''Active'' KBool,
           exported_field ''InterfaceType'' KString]"

definition host_registry :: "float_ops \<Rightarrow> Registry" where
  "host_registry fl =
     (case Registry_Register fl Registry_New ''host'' (zero_object Host) of
        Inl e \<Rightarrow> Registry_New
      | Inr r \<Rightarrow> r)"

text \<open>
  The rule of the example program for \<open>Device.Hosts.Host.*.PhysAddress\<close>: entity \<open>host\<close>,
  field \<open>MACAddress\<close>, transform \<open>mac_normalize\<close>, the index extractor on segment 3 with the
  prefix \<open>host:\<close>.
\<close>

definition phys_address_rule :: "string \<Rightarrow> FastRule" where
  "phys_address_rule i =
     \<lparr> rID = i,
       rPattern = (CompilePattern ''Device.Hosts.Host.*.PhysAddress'')
                    \<lparr> pEntity := ''host'', pField := ''MACAddress'' \<rparr>,
       rEntity = ''host'',
       rField = ''MACAddress'',
       rTransform = ''mac_normalize'',
       rExtractor = IndexExtractor 3 ''host:'' \<rparr>"

lemma populate_snoc: "populate (ps @ [p]) = AddPattern (populate ps) p"
  by (simp add: populate_def)

lemma Split_nonempty: "strings_Split s c \<noteq> []"
  by (induction s) (auto split: list.splits)

lemma Split_cases: obtains seg segs where "strings_Split s c = seg # segs"
  using Split_nonempty [of s c] by (cases "strings_Split s c") auto

lemma Split_single_empty: "strings_Split s c = [[]] \<longleftrightarrow> s = []"
proof (cases s)
  case Nil
  then show ?thesis by simp
next
  case (Cons x xs)
  obtain seg segs where "strings_Split xs c = seg # segs" by (rule Split_cases)
  with Cons show ?thesis by auto
qed

lemma Join_Cons: "ps \<noteq> [] \<Longrightarrow> strings_Join (p # ps) c = p @ c # strings_Join ps c"
  by (cases ps) auto

lemma Join_Split: "strings_Join (strings_Split s c) c = s"
proof (induction s)
  case Nil
  show ?case by simp
next
  case (Cons x xs)
  obtain seg segs where e: "strings_Split xs c = seg # segs" by (rule Split_cases)
  show ?case
  proof (cases "x = c")
    case True
    with Cons show ?thesis by (simp add: Join_Cons Split_nonempty)
  next
    case False
    with Cons e show ?thesis by (cases segs) auto
  qed
qed

lemma last_Split_empty: "last (strings_Split s c) = [] \<longleftrightarrow> s = [] \<or> last s = c"
proof (induction s)
  case Nil
  show ?case by simp
next
  case (Cons x xs)
  obtain seg segs where e: "strings_Split xs c = seg # segs" by (rule Split_cases)
  show ?case
  proof (cases "xs = []")
    case True
    then show ?thesis by auto
  next
    case False
    show ?thesis
    proof (cases segs)
      case Nil
      with e False Cons have "seg \<noteq> []" "last xs \<noteq> c"
        using Split_single_empty [of xs c] by auto
      with e Nil False show ?thesis by auto
    next
      case (Cons a list)
      with e False Cons.IH show ?thesis by auto
    qed
  qed
qed

lemma splitPathFast_from_Split:
  "strings_Split cs (CHR ''.'') = s1 # segs \<Longrightarrow>
   splitPathFast_from seg cs =
     (if last ((seg @ s1) # segs) = [] then butlast ((seg @ s1) # segs) else (seg @ s1) # segs)"
proof (induction cs arbitrary: seg s1 segs)
  case Nil
  then show ?case by auto
next
  case (Cons x xs)
  obtain t1 tsegs where e: "strings_Split xs (CHR ''.'') = t1 # tsegs" by (rule Split_cases)
  show ?case
  proof (cases "x = CHR ''.''")
    case True
    with Cons.prems e have "s1 = []" "segs = t1 # tsegs" by auto
    then show ?thesis using Cons.IH [OF e, of "[]"] True by simp
  next
    case False
    with Cons.prems e have "s1 = x # t1" "segs = tsegs" by auto
    then show ?thesis using Cons.IH [OF e, of "seg @ [x]"] False by simp
  qed
qed

lemma splitPathFast_Split:
  "splitPathFast path =
     (if last (strings_Split path (CHR ''.'')) = [] then butlast (strings_Split path (CHR ''.''))
      else strings_Split path (CHR ''.''))"
proof -
  obtain s1 segs where e: "strings_Split path (CHR ''.'') = s1 # segs" by (rule Split_cases)
  show ?thesis using splitPathFast_from_Split [OF e, of "[]"] e
    by (simp add: splitPathFast_def)
qed

lemma bytesHasPrefix_iff: "bytesHasPrefix b p \<longleftrightarrow> length p \<le> length b \<and> take (length p) b = p"
proof (cases "length b < length p")
  case True
  then show ?thesis by (simp add: bytesHasPrefix_def)
next
  case False
  then have "(take (length p) b = p) = (\<forall>i<length p. b ! i = p ! i)"
    by (simp add: list_eq_iff_nth_eq)
  with False show ?thesis by (auto simp add: bytesHasPrefix_def list_all_iff)
qed

lemma bytesHasSuffix_iff:
  "bytesHasSuffix b (length b) s \<longleftrightarrow> length s \<le> length b \<and> drop (length b - length s) b = s"
proof (cases "length b < length s")
  case True
  then show ?thesis by (simp add: bytesHasSuffix_def)
next
  case False
  then have "(drop (length b - length s) b = s) = (\<forall>i<length s. b ! (length b - length s + i) = s ! i)"
    by (simp add: list_eq_iff_nth_eq)
  with False show ?thesis by (auto simp add: bytesHasSuffix_def list_all_iff Let_def)
qed

lemma three_segments_A_C_iff:
  "three_segments_A_C path \<longleftrightarrow> (\<exists>x. strings_Split path (CHR ''.'') = [''A'', x, ''C''])"
  by (auto simp: three_segments_A_C_def split: list.splits)

lemma CompilePattern_A_star_C:
  "CompilePattern ''A.*.C'' =
     \<lparr> pID = [], pOriginalPath = ''A.*.C'', pPrefix = ''A.'', pSuffix = ''.C'',
       pContains = [], pParts = [''A'', ''*'', ''C''], pMinParts = 3, pMaxParts = 3,
       pWildcardPos = Some [1], pEntity = [], pField = [], pPriority = 0 \<rparr>"
  by code_simp

lemma length3E:
  assumes "length xs = 3"
  obtains a b c where "xs = [a, b, c]"
  using assms by (auto simp: numeral_3_eq_3 length_Suc_conv)

lemma matchParts_A_star_C:
  "matchParts path (CompilePattern ''A.*.C'') \<longleftrightarrow> (\<exists>x. splitPathFast path = [''A'', x, ''C''])"
proof
  assume m: "matchParts path (CompilePattern ''A.*.C'')"
  then have "length (splitPathFast path) = 3"
    by (simp add: matchParts_def CompilePattern_A_star_C Let_def split: if_splits)
  then obtain a b c where e: "splitPathFast path = [a, b, c]" by (rule length3E)
  with m show "\<exists>x. splitPathFast path = [''A'', x, ''C'']"
    by (simp add: matchParts_def CompilePattern_A_star_C Let_def)
next
  assume "\<exists>x. splitPathFast path = [''A'', x, ''C'']"
  then show "matchParts path (CompilePattern ''A.*.C'')"
    by (auto simp: matchParts_def CompilePattern_A_star_C Let_def)
qed

lemma last_of_drop:
  assumes "drop n xs = ys" "ys \<noteq> []"
  shows "xs \<noteq> []" and "last xs = last ys"
proof -
  from assms have n: "n < length xs" by (cases "n < length xs") auto
  then show "xs \<noteq> []" by auto
  from n show "last xs = last ys" using last_drop [of n xs] assms by simp
qed

lemma bytesHasSuffix_append: "bytesHasSuffix (a @ s) (length (a @ s)) s"
  by (subst bytesHasSuffix_iff) simp

lemma match_A_star_C:
  "matchPatternFast path (length path) (CompilePattern ''A.*.C'') \<longleftrightarrow> three_segments_A_C path"
proof
  assume m: "matchPatternFast path (length path) (CompilePattern ''A.*.C'')"
  then have suf: "bytesHasSuffix path (length path) ''.C''"
    and mp: "matchParts path (CompilePattern ''A.*.C'')"
    by (auto simp: matchPatternFast_def CompilePattern_A_star_C split: if_splits)
  from suf have d: "drop (length path - length ''.C'') path = ''.C''"
    by (simp add: bytesHasSuffix_iff)
  have ne: "path \<noteq> []" and "last path = last ''.C''"
    using last_of_drop [OF d] by simp_all
  then have "last path = CHR ''C''" by simp
  with ne have "last (strings_Split path (CHR ''.'')) \<noteq> []"
    by (simp add: last_Split_empty)
  then have "splitPathFast path = strings_Split path (CHR ''.'')"
    by (simp add: splitPathFast_Split)
  with mp show "three_segments_A_C path"
    by (simp add: matchParts_A_star_C three_segments_A_C_iff)
next
  assume t: "three_segments_A_C path"
  then obtain x where sp: "strings_Split path (CHR ''.'') = [''A'', x, ''C'']"
    by (auto simp: three_segments_A_C_iff)
  have path: "path = ''A.'' @ x @ ''.C''"
    using Join_Split [of path "CHR ''.''"] sp by simp
  from sp have "splitPathFast path = [''A'', x, ''C'']"
    by (simp add: splitPathFast_Split)
  then have mp: "matchParts path (CompilePattern ''A.*.C'')"
    by (simp add: matchParts_A_star_C)
  have pre: "bytesHasPrefix path ''A.''" by (simp add: bytesHasPrefix_iff path)
  have suf: "bytesHasSuffix path (length path) ''.C''"
    using bytesHasSuffix_append [of "''A.'' @ x" "''.C''"] by (simp only: path append_assoc)
  show "matchPatternFast path (length path) (CompilePattern ''A.*.C'')"
    using mp pre suf by (simp add: matchPatternFast_def CompilePattern_A_star_C path)
qed


lemma Search_from_subset:
  "q \<in> set (Search_from n path acc) \<Longrightarrow> q \<in> set acc \<or> in_trie q n"
proof (induction path arbitrary: n acc)
  case Nil
  then show ?case by (auto split: if_splits intro: here)
next
  case (Cons c cs)
  show ?case
  proof (cases "children n c")
    case None
    with Cons.prems show ?thesis by (auto split: if_splits intro: here)
  next
    case (Some child)
    with Cons.prems have "q \<in> set (Search_from child cs (if isEnd n then acc @ node_patterns n else acc))"
      by (simp add: Let_def)
    from Cons.IH [OF this] Some show ?thesis by (auto split: if_splits intro: here below)
  qed
qed

lemma in_trie_empty: "\<not> in_trie q (TrieNode (\<lambda>_. None) [] False)"
proof
  assume "in_trie q (TrieNode (\<lambda>_. None) [] False)"
  then show False by (cases rule: in_trie.cases) simp_all
qed

lemma in_trie_Insert: "in_trie q (Insert n s p) \<Longrightarrow> q = p \<or> in_trie q n"
proof (induction s arbitrary: n)
  case Nil
  then have "in_trie q (TrieNode (children n) (node_patterns n @ [p]) True)" by simp
  then show ?case
  proof (cases rule: in_trie.cases)
    case here
    then show ?thesis by (auto intro: in_trie.here)
  next
    case (below d m)
    then show ?thesis by (auto intro: in_trie.below)
  qed
next
  case (Cons c cs)
  define child where "child = (case children n c of None \<Rightarrow> TrieNode (\<lambda>_. None) [] False | Some m \<Rightarrow> m)"
  have ch: "in_trie q child \<Longrightarrow> in_trie q n"
    by (cases "children n c") (auto simp: child_def in_trie_empty intro: below)
  from Cons.prems have "in_trie q (TrieNode ((children n)(c \<mapsto> Insert child cs p)) (node_patterns n) (isEnd n))"
    by (simp add: child_def Let_def)
  then show ?case
  proof (cases rule: in_trie.cases)
    case here
    then show ?thesis by (auto intro: in_trie.here)
  next
    case (below d m)
    show ?thesis
    proof (cases "d = c")
      case True
      with below have "in_trie q (Insert child cs p)" by simp
      from Cons.IH [OF this] ch show ?thesis by auto
    next
      case False
      with below show ?thesis by (auto intro: in_trie.below)
    qed
  qed
qed

lemma find_SomeD: "List.find P xs = Some x \<Longrightarrow> P x \<and> x \<in> set xs"
  by (induction xs) (auto split: if_splits)

lemma AddPattern_exact:
  "is_exact p \<Longrightarrow> AddPattern r p = r \<lparr> exactMatches := (exactMatches r)(pOriginalPath p \<mapsto> p) \<rparr>"
  by (simp add: AddPattern_def is_exact_def)

lemma AddPattern_not_exact:
  assumes "\<not> is_exact p"
  shows "exactMatches (AddPattern r p) = exactMatches r"
    and "patterns (AddPattern r p) = patterns r @ [p]"
    and "prefixTree (AddPattern r p) =
           (if pPrefix p \<noteq> [] \<and> len_slice (pWildcardPos p) > 0
            then Insert (prefixTree r) (pPrefix p) p else prefixTree r)"
    and "suffixIndex (AddPattern r p) =
           (if pSuffix p \<noteq> []
            then (suffixIndex r)(pSuffix p \<mapsto>
                   (case suffixIndex r (pSuffix p) of None \<Rightarrow> [] | Some ps \<Rightarrow> ps) @ [p])
            else suffixIndex r)"
  using assms by (auto simp: AddPattern_def is_exact_def Let_def len_slice_def)

lemma exact_AddPattern:
  "exactMatches (AddPattern r p) k =
     (if is_exact p \<and> pOriginalPath p = k then Some p else exactMatches r k)"
  by (cases "is_exact p") (simp_all add: AddPattern_exact AddPattern_not_exact)

lemma patterns_AddPattern:
  "patterns (AddPattern r p) = patterns r @ (if is_exact p then [] else [p])"
  by (cases "is_exact p") (simp_all add: AddPattern_exact AddPattern_not_exact)

lemma trie_AddPattern:
  assumes "in_trie q (prefixTree (AddPattern r p))"
  shows "(q = p \<and> \<not> is_exact p) \<or> in_trie q (prefixTree r)"
proof (cases "is_exact p")
  case True
  with assms show ?thesis by (simp add: AddPattern_exact)
next
  case False
  show ?thesis
  proof (cases "pPrefix p \<noteq> [] \<and> len_slice (pWildcardPos p) > 0")
    case True
    with assms False have "in_trie q (Insert (prefixTree r) (pPrefix p) p)"
      by (simp add: AddPattern_not_exact)
    from in_trie_Insert [OF this] False show ?thesis by auto
  next
    case f: False
    with assms False have "in_trie q (prefixTree r)"
      by (simp add: AddPattern_not_exact)
    then show ?thesis ..
  qed
qed

lemma suffix_AddPattern:
  assumes "suffixIndex (AddPattern r p) k = Some qs" "q \<in> set qs"
  shows "(q = p \<and> \<not> is_exact p) \<or> (\<exists>qs'. suffixIndex r k = Some qs' \<and> q \<in> set qs')"
proof (cases "is_exact p")
  case True
  with assms show ?thesis by (simp add: AddPattern_exact)
next
  case False
  show ?thesis
  proof (cases "pSuffix p \<noteq> [] \<and> pSuffix p = k")
    case True
    then have k: "pSuffix p \<noteq> []" "k = pSuffix p" by auto
    from assms(1) False
    have "qs = (case suffixIndex r (pSuffix p) of None \<Rightarrow> [] | Some ps \<Rightarrow> ps) @ [p]"
      unfolding k by (simp add: AddPattern_not_exact k(1))
    with assms(2) False show ?thesis unfolding k by (cases "suffixIndex r (pSuffix p)") auto
  next
    case f: False
    with assms(1) False have "suffixIndex r k = Some qs"
      by (auto simp: AddPattern_not_exact split: if_splits)
    with assms(2) show ?thesis by blast
  qed
qed

lemma exact_populate:
  "exactMatches (populate ps) k = Some q \<Longrightarrow> q \<in> set ps \<and> is_exact q \<and> pOriginalPath q = k"
proof (induction ps rule: rev_induct)
  case Nil
  then show ?case by (simp add: populate_def New_router_def)
next
  case (snoc p ps)
  then show ?case by (auto simp: populate_snoc exact_AddPattern split: if_splits)
qed

lemma patterns_populate: "patterns (populate ps) = filter (\<lambda>q. \<not> is_exact q) ps"
proof (induction ps rule: rev_induct)
  case Nil
  then show ?case by (simp add: populate_def New_router_def)
next
  case (snoc p ps)
  then show ?case by (simp add: populate_snoc patterns_AddPattern)
qed

lemma trie_populate:
  "in_trie q (prefixTree (populate ps)) \<Longrightarrow> q \<in> set ps \<and> \<not> is_exact q"
proof (induction ps rule: rev_induct)
  case Nil
  then show ?case by (simp add: populate_def New_router_def NewTrie_def in_trie_empty)
next
  case (snoc p ps)
  from snoc.prems have "in_trie q (prefixTree (AddPattern (populate ps) p))"
    by (simp add: populate_snoc)
  from trie_AddPattern [OF this] snoc.IH show ?case by auto
qed

lemma suffix_populate:
  "suffixIndex (populate ps) k = Some qs \<Longrightarrow> q \<in> set qs \<Longrightarrow> q \<in> set ps \<and> \<not> is_exact q"
proof (induction ps arbitrary: qs rule: rev_induct)
  case Nil
  then show ?case by (simp add: populate_def New_router_def)
next
  case (snoc p ps)
  from snoc.prems have "suffixIndex (AddPattern (populate ps) p) k = Some qs"
    by (simp add: populate_snoc)
  from suffix_AddPattern [OF this snoc.prems(2)] snoc.IH show ?case by auto
qed

lemma Route_exact: "exactMatches r path = Some p \<Longrightarrow> Route r path = Some p"
  by (simp add: Route_def)

lemma Route_suffix_Some:
  assumes "Route_suffix r path = Some q"
  shows "matchPatternFast path (length path) q \<and> (\<exists>k qs. suffixIndex r k = Some qs \<and> q \<in> set qs)"
proof -
  define k where "k = drop (nat (strings_LastIndexByte path (CHR ''.''))) path"
  from assms obtain qs where "suffixIndex r k = Some qs"
    "List.find (matchPatternFast path (length path)) qs = Some q"
    by (auto simp: Route_suffix_def Let_def k_def split: if_splits option.splits)
  then show ?thesis using find_SomeD [of "matchPatternFast path (length path)" qs q] by blast
qed

lemma Route_Some:
  assumes "Route r path = Some q"
  shows "exactMatches r path = Some q \<or>
         (matchPatternFast path (length path) q \<and>
          (in_trie q (prefixTree r) \<or> (\<exists>k qs. suffixIndex r k = Some qs \<and> q \<in> set qs) \<or>
           q \<in> set (patterns r)))"
proof (cases "exactMatches r path")
  case (Some a)
  with assms show ?thesis by (simp add: Route_def)
next
  case None
  show ?thesis
  proof (cases "List.find (matchPatternFast path (length path)) (Search (prefixTree r) path)")
    case (Some a)
    with None assms have "a = q" by (simp add: Route_def)
    with Some have "matchPatternFast path (length path) q" "q \<in> set (Search_from (prefixTree r) path [])"
      using find_SomeD [of "matchPatternFast path (length path)" "Search (prefixTree r) path" q]
      by (simp_all add: Search_def)
    then show ?thesis using Search_from_subset [of q "prefixTree r" path "[]"] by auto
  next
    case n2: None
    show ?thesis
    proof (cases "Route_suffix r path")
      case (Some a)
      with None n2 assms have "a = q" by (simp add: Route_def)
      with Some Route_suffix_Some [of r path q] show ?thesis by blast
    next
      case n3: None
      with None n2 assms have "List.find (matchPatternFast path (length path)) (patterns r) = Some q"
        by (simp add: Route_def)
      from find_SomeD [OF this] show ?thesis by blast
    qed
  qed
qed

lemma Route_fallback:
  assumes "q \<in> set (patterns r)" "matchPatternFast path (length path) q"
  shows "Route r path \<noteq> None"
proof -
  from assms have "List.find (matchPatternFast path (length path)) (patterns r) \<noteq> None"
    by (auto simp: find_None_iff)
  then show ?thesis by (auto simp: Route_def split: option.splits)
qed

lemma Route_populate_Some:
  assumes "Route (populate ps) path = Some q"
  shows "q \<in> set ps \<and> (if is_exact q then pOriginalPath q = path
                          else matchPatternFast path (length path) q)"
proof -
  from Route_Some [OF assms] consider
      (ex) "exactMatches (populate ps) path = Some q"
    | (tr) "matchPatternFast path (length path) q" "in_trie q (prefixTree (populate ps))"
    | (su) k qs where "matchPatternFast path (length path) q" "suffixIndex (populate ps) k = Some qs" "q \<in> set qs"
    | (fb) "matchPatternFast path (length path) q" "q \<in> set (patterns (populate ps))"
    by blast
  then show ?thesis
  proof cases
    case ex
    from exact_populate [OF this] show ?thesis by simp
  next
    case tr
    from trie_populate [OF tr(2)] tr(1) show ?thesis by simp
  next
    case su
    from suffix_populate [OF su(2,3)] su(1) show ?thesis by simp
  next
    case fb
    then show ?thesis by (simp add: patterns_populate)
  qed
qed

lemma Route_populate_iff:
  "Route (populate ps) path \<noteq> None \<longleftrightarrow>
     (\<exists>q\<in>set ps. is_exact q \<and> pOriginalPath q = path) \<or>
     (\<exists>q\<in>set ps. \<not> is_exact q \<and> matchPatternFast path (length path) q)"
proof
  assume "Route (populate ps) path \<noteq> None"
  then obtain q where "Route (populate ps) path = Some q" by auto
  from Route_populate_Some [OF this] show "(\<exists>q\<in>set ps. is_exact q \<and> pOriginalPath q = path) \<or>
     (\<exists>q\<in>set ps. \<not> is_exact q \<and> matchPatternFast path (length path) q)"
    by (cases "is_exact q") auto
next
  assume "(\<exists>q\<in>set ps. is_exact q \<and> pOriginalPath q = path) \<or>
     (\<exists>q\<in>set ps. \<not> is_exact q \<and> matchPatternFast path (length path) q)"
  then show "Route (populate ps) path \<noteq> None"
  proof
    assume "\<exists>q\<in>set ps. is_exact q \<and> pOriginalPath q = path"
    then obtain q where q: "q \<in> set ps" "is_exact q" "pOriginalPath q = path" by auto
    have "exactMatches (populate ps) path \<noteq> None" using q
    proof (induction ps rule: rev_induct)
      case Nil
      then show ?case by simp
    next
      case (snoc p ps)
      then show ?case by (auto simp: populate_snoc exact_AddPattern)
    qed
    then show ?thesis by (auto simp: Route_def)
  next
    assume "\<exists>q\<in>set ps. \<not> is_exact q \<and> matchPatternFast path (length path) q"
    then obtain q where "q \<in> set (patterns (populate ps))" "matchPatternFast path (length path) q"
      by (auto simp: patterns_populate)
    then show ?thesis by (rule Route_fallback)
  qed
qed

subsection \<open>The wildcard pattern \<open>A.*.C\<close>\<close>

lemma matchPatternFast_with_rule_fields:
  "matchPatternFast path n (with_rule_fields p i e f) = matchPatternFast path n p"
  by (simp add: matchPatternFast_def matchParts_def with_rule_fields_def)

lemma is_exact_with_rule_fields: "is_exact (with_rule_fields p i e f) = is_exact p"
  by (simp add: is_exact_def with_rule_fields_def)

lemma not_exact_A_star_C: "\<not> is_exact (CompilePattern ''A.*.C'')"
  by (simp add: is_exact_def CompilePattern_A_star_C)

text \<open>
  Claim C1, as the code has it.  The compiled pattern \<open>A.*.C\<close> verifies a path exactly
  when the path splits on the dot into three segments, the first \<open>A\<close> and the third \<open>C\<close>.
  In every router that registered it among any other patterns, \<open>Route\<close> matches each such
  path, and \<open>Route\<close> returns this pattern only for such a path; when it is the only
  registered pattern, \<open>Route\<close> matches if and only if the path has that shape.  With other
  patterns registered, \<open>Route\<close> also matches the paths those patterns accept.
\<close>

theorem C1_route_A_star_C:
  "(matchPatternFast path (length path) (with_rule_fields (CompilePattern ''A.*.C'') i e f)
      \<longleftrightarrow> three_segments_A_C path) \<and>
   (with_rule_fields (CompilePattern ''A.*.C'') i e f \<in> set ps \<and> three_segments_A_C path
      \<longrightarrow> Route (populate ps) path \<noteq> None) \<and>
   (Route (populate ps) path = Some (with_rule_fields (CompilePattern ''A.*.C'') i e f)
      \<longrightarrow> three_segments_A_C path) \<and>
   (set ps = {with_rule_fields (CompilePattern ''A.*.C'') i e f}
      \<longrightarrow> (Route (populate ps) path \<noteq> None \<longleftrightarrow> three_segments_A_C path))"
proof -
  let ?p = "with_rule_fields (CompilePattern ''A.*.C'') i e f"
  have ne: "\<not> is_exact ?p"
    by (simp add: is_exact_with_rule_fields not_exact_A_star_C)
  have m: "matchPatternFast path (length path) ?p \<longleftrightarrow> three_segments_A_C path"
    by (simp add: matchPatternFast_with_rule_fields match_A_star_C)
  have a: "?p \<in> set ps \<and> three_segments_A_C path \<longrightarrow> Route (populate ps) path \<noteq> None"
    using ne m Route_populate_iff [of ps path] by blast
  have b: "Route (populate ps) path = Some ?p \<longrightarrow> three_segments_A_C path"
    using Route_populate_Some [of ps path ?p] ne m by auto
  have c: "set ps = {?p} \<longrightarrow> (Route (populate ps) path \<noteq> None \<longleftrightarrow> three_segments_A_C path)"
  proof
    assume s: "set ps = {?p}"
    then show "Route (populate ps) path \<noteq> None \<longleftrightarrow> three_segments_A_C path"
      using ne m by (simp only: Route_populate_iff s) simp
  qed
  from m a b c show ?thesis by blast
qed

theorem C1_route_A_star_C_witness:
  "three_segments_A_C ''A.X.C'' \<and>
   Route (populate [CompilePattern ''B.C'',
                    with_rule_fields (CompilePattern ''A.*.C'') ''r1'' ''host'' ''Name''])
     ''A.X.C'' \<noteq> None \<and>
   \<not> three_segments_A_C ''A.X.Y.C'' \<and>
   Route (populate [with_rule_fields (CompilePattern ''A.*.C'') ''r1'' ''host'' ''Name''])
     ''A.X.Y.C'' = None"
  using C1_route_A_star_C [of "''A.X.C''" "''r1''" "''host''" "''Name''"
          "[CompilePattern ''B.C'',
            with_rule_fields (CompilePattern ''A.*.C'') ''r1'' ''host'' ''Name'']"]
        C1_route_A_star_C [of "''A.X.Y.C''" "''r1''" "''host''" "''Name''"
          "[with_rule_fields (CompilePattern ''A.*.C'') ''r1'' ''host'' ''Name'']"]
  by (simp add: three_segments_A_C_def)

text \<open>
  Claim C1 as it is stated fails once another pattern is registered: with \<open>A.*.*.C\<close>
  beside \<open>A.*.C\<close>, \<open>Route\<close> matches the four-segment path \<open>A.X.Y.C\<close>.
\<close>

theorem C1_other_pattern_counterexample:
  "Route (populate [CompilePattern ''A.*.C'', CompilePattern ''A.*.*.C'']) ''A.X.Y.C''
     = Some (CompilePattern ''A.*.*.C'') \<and>
   \<not> three_segments_A_C ''A.X.Y.C''"
  by code_simp


subsection \<open>Patterns without a wildcard\<close>

lemma exact_foldl_AddPattern:
  assumes "exactMatches r t = Some p" "\<forall>q\<in>set qs. \<not> (is_exact q \<and> pOriginalPath q = t)"
  shows "exactMatches (foldl AddPattern r qs) t = Some p"
  using assms
proof (induction qs rule: rev_induct)
  case Nil
  then show ?case by simp
next
  case (snoc q qs)
  then show ?case by (auto simp: exact_AddPattern)
qed

lemma CompilePattern_plain:
  assumes "\<not> strings_Contains t ''*''"
  shows "CompilePattern t =
     \<lparr> pID = [], pOriginalPath = t, pPrefix = t, pSuffix = [],
       pContains = [], pParts = [], pMinParts = 0, pMaxParts = 0,
       pWildcardPos = None, pEntity = [], pField = [], pPriority = 0 \<rparr>"
  using assms by (simp add: CompilePattern_def)

text \<open>
  Claim C2, as the code has it: for a pattern compiled from a text that is not empty and
  contains no \<open>*\<close>, registration changes the exact-match table only; in a populated
  router \<open>Route\<close> returns that pattern only for the path equal to its text; and routing
  that text returns it from the exact-match table, whatever wildcard patterns are
  registered before or after it, as long as no later exact pattern of the same text
  replaces the entry.
\<close>

theorem C2_exact_pattern:
  assumes "t \<noteq> []" and "\<not> strings_Contains t ''*''"
  shows
  "AddPattern r (with_rule_fields (CompilePattern t) i e f) =
     r \<lparr> exactMatches := (exactMatches r)(t \<mapsto> with_rule_fields (CompilePattern t) i e f) \<rparr> \<and>
   (Route (populate ps) path = Some (with_rule_fields (CompilePattern t) i e f) \<longrightarrow> path = t) \<and>
   ((\<forall>q\<in>set ps2. \<not> (is_exact q \<and> pOriginalPath q = t)) \<longrightarrow>
      exactMatches (populate (ps1 @ with_rule_fields (CompilePattern t) i e f # ps2)) t
        = Some (with_rule_fields (CompilePattern t) i e f) \<and>
      Route (populate (ps1 @ with_rule_fields (CompilePattern t) i e f # ps2)) t
        = Some (with_rule_fields (CompilePattern t) i e f))"
proof -
  let ?p = "with_rule_fields (CompilePattern t) i e f"
  have ex: "is_exact ?p" and op: "pOriginalPath ?p = t"
    using assms by (simp_all add: is_exact_def with_rule_fields_def CompilePattern_plain)
  have a: "AddPattern r ?p = r \<lparr> exactMatches := (exactMatches r)(t \<mapsto> ?p) \<rparr>"
    using AddPattern_exact [OF ex, of r] op by simp
  have b: "Route (populate ps) path = Some ?p \<longrightarrow> path = t"
    using Route_populate_Some [of ps path ?p] ex op by auto
  have c: "(\<forall>q\<in>set ps2. \<not> (is_exact q \<and> pOriginalPath q = t)) \<longrightarrow>
      exactMatches (populate (ps1 @ ?p # ps2)) t = Some ?p \<and>
      Route (populate (ps1 @ ?p # ps2)) t = Some ?p"
  proof
    assume n: "\<forall>q\<in>set ps2. \<not> (is_exact q \<and> pOriginalPath q = t)"
    have "populate (ps1 @ ?p # ps2) = foldl AddPattern (AddPattern (populate ps1) ?p) ps2"
      by (simp add: populate_def)
    moreover have "exactMatches (AddPattern (populate ps1) ?p) t = Some ?p"
      using ex op by (simp add: exact_AddPattern)
    ultimately have "exactMatches (populate (ps1 @ ?p # ps2)) t = Some ?p"
      using exact_foldl_AddPattern [OF _ n] by simp
    then show "exactMatches (populate (ps1 @ ?p # ps2)) t = Some ?p \<and>
      Route (populate (ps1 @ ?p # ps2)) t = Some ?p"
      by (simp add: Route_exact)
  qed
  from a b c show ?thesis by blast
qed

theorem C2_exact_pattern_witness:
  "Route (populate [CompilePattern ''*.*.C'',
                    with_rule_fields (CompilePattern ''A.B.C'') ''r2'' ''host'' ''Name'',
                    CompilePattern ''A.*.C'']) ''A.B.C''
     = Some (with_rule_fields (CompilePattern ''A.B.C'') ''r2'' ''host'' ''Name'') \<and>
   matchPatternFast ''A.B.C'' 5 (CompilePattern ''*.*.C'') \<and>
   matchPatternFast ''A.B.C'' 5 (CompilePattern ''A.*.C'')"
proof -
  have 1: "''A.B.C'' \<noteq> []" by simp
  have 2: "\<not> strings_Contains ''A.B.C'' ''*''" by simp
  have 3: "\<forall>q\<in>set [CompilePattern ''A.*.C'']. \<not> (is_exact q \<and> pOriginalPath q = ''A.B.C'')"
    by (simp add: not_exact_A_star_C)
  have 4: "matchPatternFast ''A.B.C'' 5 (CompilePattern ''*.*.C'')" by code_simp
  have 5: "matchPatternFast ''A.B.C'' 5 (CompilePattern ''A.*.C'')" by code_simp
  show ?thesis
    using C2_exact_pattern [OF 1 2, of _ "''r2''" "''host''" "''Name''" _ _
            "[CompilePattern ''A.*.C'']" "[CompilePattern ''*.*.C'']"] 3 4 5
    by simp
qed

text \<open>
  Claim C2 as it is stated fails for the empty text, which contains no \<open>*\<close>: its pattern
  has an empty prefix, so \<open>AddPattern\<close> puts it on the fallback list and not in the
  exact-match table, and there it verifies every path.
\<close>

theorem C2_empty_text_counterexample:
  "\<not> strings_Contains [] ''*'' \<and>
   exactMatches (populate [CompilePattern []]) [] = None \<and>
   patterns (populate [CompilePattern []]) = [CompilePattern []] \<and>
   Route (populate [CompilePattern []]) ''X'' = Some (CompilePattern [])"
  by code_simp

section \<open>The index extractor\<close>

lemma extractor_splitPathFast_from_Split:
  "strings_Split cs (CHR ''.'') = s1 # segs \<Longrightarrow>
   extractor_splitPathFast_from seg cs = filter (\<lambda>s. s \<noteq> []) ((seg @ s1) # segs)"
proof (induction cs arbitrary: seg s1 segs)
  case Nil
  then show ?case by auto
next
  case (Cons x xs)
  obtain t1 tsegs where e: "strings_Split xs (CHR ''.'') = t1 # tsegs" by (rule Split_cases)
  show ?case
  proof (cases "x = CHR ''.''")
    case True
    with Cons.prems e have "s1 = []" "segs = t1 # tsegs" by auto
    then show ?thesis using Cons.IH [OF e, of "[]"] True by simp
  next
    case False
    with Cons.prems e have "s1 = x # t1" "segs = tsegs" by auto
    then show ?thesis using Cons.IH [OF e, of "seg @ [x]"] False by simp
  qed
qed

lemma extractor_splitPathFast_nonempty_segments:
  "extractor_splitPathFast path = nonempty_segments path"
proof -
  obtain s1 segs where e: "strings_Split path (CHR ''.'') = s1 # segs" by (rule Split_cases)
  show ?thesis
    using extractor_splitPathFast_from_Split [OF e, of "[]"] e
    by (simp add: extractor_splitPathFast_def nonempty_segments_def)
qed

lemma pathCache_ok_empty: "pathCache_ok Map.empty"
  by (simp add: pathCache_ok_def)

lemma splitPathCached_ok:
  assumes "pathCache_ok cache"
  shows "fst (splitPathCached cache path) = extractor_splitPathFast path"
    and "pathCache_ok (snd (splitPathCached cache path))"
  using assms
  by (auto simp: splitPathCached_def pathCache_ok_def Let_def split: option.splits)

text \<open>
  Claim C5, as the code has it: with a consistent path cache, the index extractor returns
  the \<open>N\<close>-th (from zero) of the segments of the path that are not empty, the prefix put
  before it, and the empty string, without the prefix, when \<open>N\<close> is negative or not less
  than the number of those segments; the cache stays consistent.  Segments that are empty
  (between consecutive dots, before a leading or after a trailing dot) are not counted.
\<close>

theorem C5_index_extractor:
  assumes "pathCache_ok cache"
  shows
  "fst (Extract (IndexExtractor position prefix) cache path v) =
     (if 0 \<le> position \<and> position < int (length (nonempty_segments path))
      then prefix @ nonempty_segments path ! nat position
      else []) \<and>
   pathCache_ok (snd (Extract (IndexExtractor position prefix) cache path v))"
proof -
  obtain parts cache1 where sp: "splitPathCached cache path = (parts, cache1)"
    by (cases "splitPathCached cache path")
  with splitPathCached_ok [OF assms, of path]
  have p: "parts = nonempty_segments path" and c: "pathCache_ok cache1"
    by (simp_all add: extractor_splitPathFast_nonempty_segments)
  show ?thesis
    using p c by (auto simp: IndexExtractor_Extract_def sp)
qed

theorem C5_index_extractor_witness:
  "pathCache_ok Map.empty \<and>
   fst (Extract (IndexExtractor 3 ''host:'') Map.empty ''Device.Hosts.Host.1.PhysAddress'' ''v'')
     = ''host:1'' \<and>
   fst (Extract (IndexExtractor 5 ''host:'') Map.empty ''Device.Hosts.Host.1.PhysAddress'' ''v'')
     = []"
proof -
  have n: "nonempty_segments ''Device.Hosts.Host.1.PhysAddress''
             = [''Device'', ''Hosts'', ''Host'', ''1'', ''PhysAddress'']"
    by code_simp
  show ?thesis
    using C5_index_extractor [OF pathCache_ok_empty, of 3 "''host:''"
            "''Device.Hosts.Host.1.PhysAddress''" "''v''"]
          C5_index_extractor [OF pathCache_ok_empty, of 5 "''host:''"
            "''Device.Hosts.Host.1.PhysAddress''" "''v''"]
    by (simp add: n pathCache_ok_empty)
qed

text \<open>
  Claim C5 as it is stated counts empty segments; the code skips them.  The path \<open>A..B\<close>
  splits on the dot into \<open>A\<close>, the empty segment and \<open>B\<close>, and \<open>path[1]\<close> returns \<open>B\<close>.
\<close>

theorem C5_empty_segment_counterexample:
  "strings_Split ''A..B'' (CHR ''.'') = [''A'', [], ''B''] \<and>
   fst (Extract (IndexExtractor 1 []) Map.empty ''A..B'' []) = ''B''"
  by code_simp

section \<open>The memoizing transform\<close>

text \<open>
  A cache is sound for a table when every entry under a key \<open>name:value\<close> whose name
  has no colon holds what \<open>Apply\<close> returns for that name and value.
\<close>

lemma colon_key_unique:
  assumes "CHR '':'' \<notin> set n1" "CHR '':'' \<notin> set n2" "n1 @ '':'' @ v1 = n2 @ '':'' @ v2"
  shows "n1 = n2 \<and> v1 = v2"
proof -
  have "takeWhile (\<lambda>c. c \<noteq> CHR '':'') (n1 @ '':'' @ v1) = n1"
    using assms(1) by (simp add: takeWhile_append)
  moreover have "takeWhile (\<lambda>c. c \<noteq> CHR '':'') (n2 @ '':'' @ v2) = n2"
    using assms(2) by (simp add: takeWhile_append)
  ultimately have "n1 = n2" using assms(3) by simp
  with assms(3) show ?thesis by simp
qed

lemma Transform_sound_step:
  assumes inv: "\<forall>n v r. CHR '':'' \<notin> set n \<longrightarrow> cache (n @ '':'' @ v) = Some r
                  \<longrightarrow> Apply tfs n v = (r, None)"
      and n: "CHR '':'' \<notin> set name"
  shows "fst (Transform cache tfs name v) = Apply tfs name v"
    and "\<forall>n' v' r. CHR '':'' \<notin> set n' \<longrightarrow> snd (Transform cache tfs name v) (n' @ '':'' @ v') = Some r
            \<longrightarrow> Apply tfs n' v' = (r, None)"
proof -
  show "fst (Transform cache tfs name v) = Apply tfs name v"
  proof (cases "cache (name @ '':'' @ v)")
    case None
    then show ?thesis by (simp add: Transform_def Let_def split: prod.splits)
  next
    case (Some r)
    with inv n have "Apply tfs name v = (r, None)" by blast
    with Some show ?thesis by (simp add: Transform_def Let_def)
  qed
  show "\<forall>n' v' r. CHR '':'' \<notin> set n' \<longrightarrow> snd (Transform cache tfs name v) (n' @ '':'' @ v') = Some r
            \<longrightarrow> Apply tfs n' v' = (r, None)"
  proof (intro allI impI)
    fix n' v' r
    assume n': "CHR '':'' \<notin> set n'"
       and s: "snd (Transform cache tfs name v) (n' @ '':'' @ v') = Some r"
    show "Apply tfs n' v' = (r, None)"
    proof (cases "cache (name @ '':'' @ v)")
      case (Some c)
      with s have "cache (n' @ '':'' @ v') = Some r" by (simp add: Transform_def Let_def)
      with inv n' show ?thesis by blast
    next
      case None
      obtain res e where a: "Apply tfs name v = (res, e)" by (cases "Apply tfs name v")
      show ?thesis
      proof (cases "e = None \<and> n' @ '':'' @ v' = name @ '':'' @ v")
        case True
        with colon_key_unique [OF n' n] have "n' = name" "v' = v" by auto
        moreover from True None a s have "r = res"
          by (simp add: Transform_def Let_def)
        ultimately show ?thesis using a True by simp
      next
        case False
        with None a s have "cache (n' @ '':'' @ v') = Some r"
          by (auto simp: Transform_def Let_def split: if_splits)
        with inv n' show ?thesis by blast
      qed
    qed
  qed
qed

lemma Transform_calls_sound:
  assumes "\<forall>n v r. CHR '':'' \<notin> set n \<longrightarrow> cache (n @ '':'' @ v) = Some r
                  \<longrightarrow> Apply tfs n v = (r, None)"
      and "\<forall>(n, v) \<in> set calls. CHR '':'' \<notin> set n"
  shows "\<forall>n v r. CHR '':'' \<notin> set n \<longrightarrow> Transform_calls cache tfs calls (n @ '':'' @ v) = Some r
                  \<longrightarrow> Apply tfs n v = (r, None)"
  using assms
proof (induction calls arbitrary: cache)
  case Nil
  then show ?case by simp
next
  case (Cons c calls)
  obtain n0 v0 where c: "c = (n0, v0)" by (cases c)
  with Cons.prems(2) have n0: "CHR '':'' \<notin> set n0" by simp
  have "\<forall>n' v' r. CHR '':'' \<notin> set n' \<longrightarrow> snd (Transform cache tfs n0 v0) (n' @ '':'' @ v') = Some r
            \<longrightarrow> Apply tfs n' v' = (r, None)"
    by (rule Transform_sound_step(2) [OF Cons.prems(1) n0])
  from Cons.IH [OF this] Cons.prems(2) c show ?case by simp
qed

text \<open>
  What holds of the memoizing wrapper: as long as no transform name used on the cache
  contains a colon, \<open>Transform\<close> returns what \<open>Apply\<close> returns, after any earlier calls.
\<close>

lemma Transform_eq_Apply_without_colon:
  assumes "\<forall>(n, v) \<in> set calls. CHR '':'' \<notin> set n" and "CHR '':'' \<notin> set name"
  shows "fst (Transform (Transform_calls NewFastTransform tfs calls) tfs name v) = Apply tfs name v"
proof -
  have "\<forall>n v r. CHR '':'' \<notin> set n \<longrightarrow> NewFastTransform (n @ '':'' @ v) = Some r
                  \<longrightarrow> Apply tfs n v = (r, None)"
    by (simp add: NewFastTransform_def)
  from Transform_calls_sound [OF this assms(1)] assms(2)
  show ?thesis by (rule Transform_sound_step(1))
qed

text \<open>
  Claim C4 fails on the code.  The cache key is the concatenation \<open>name + ":" + value\<close>,
  so two different pairs can share a key.  After \<open>Transform("upper:a", "b")\<close>, whose name
  is not registered and passes \<open>b\<close> through, the call \<open>Transform("upper", "a:b")\<close> finds
  the key \<open>upper:a:b\<close> in the cache and returns \<open>b\<close>, where \<open>Apply("upper", "a:b")\<close>
  returns \<open>A:B\<close>.
\<close>

theorem C4_cache_key_collision:
  "fst (Transform (Transform_calls NewFastTransform (transformers_init fl) [(''upper:a'', ''b'')])
         (transformers_init fl) ''upper'' ''a:b'')
     = (VString ''b'', None) \<and>
   Apply (transformers_init fl) ''upper'' ''a:b'' = (VString ''A:B'', None)"
  by code_simp

end
